theory Spec2Isabelle
  imports Main "HOL-Library.Extended_Nat" "HOL-Library.Sublist"
begin

section \<open>Values, results and thrown errors\<close>

text \<open>
  The library \<^verbatim>\<open>partser\<close> (\<^verbatim>\<open>src/node_modules/partser/index.js\<close>) is
  dynamically typed. The model gives the JavaScript values that flow through a parse one
  datatype. A parser is a function object with a mutable \<^verbatim>\<open>behaviour\<close> property; the
  model refers to it by its address in a store (see below), so a parser held as a value is
  \<open>VParser\<close> of that address. Strings are lists of characters, one per code unit;
  numbers are the naturals, which is what cursors, lengths and counts are.
\<close>

type_synonym pid = nat

datatype val =
    VUndefined
  | VNull
  | VNum nat
  | VStr string
  | VArr "val list"
  | VObj "(string \<times> val) list"
  | VParser pid

text \<open>A thrown \<^verbatim>\<open>TypeError\<close>, with its message.\<close>

datatype error = TypeError string

text \<open>
  A parse result is the object \<^verbatim>\<open>{ status, index, value }\<close>. \<^verbatim>\<open>makeSuccess\<close> builds it
  with \<^verbatim>\<open>status: true\<close> and any value; \<^verbatim>\<open>makeFailure\<close>, \<^verbatim>\<open>mergeOver\<close> and
  \<^verbatim>\<open>desc\<close> build it with \<^verbatim>\<open>status: false\<close> and an array of description strings in
  \<^verbatim>\<open>value\<close>. The two shapes are the two constructors; \<open>status\<close> and
  \<open>index\<close> read both, \<open>rvalue\<close> reads the \<^verbatim>\<open>value\<close> of a success and
  \<open>expected\<close> the \<^verbatim>\<open>value\<close> of a failure.
\<close>

datatype result =
    status: Success (index: nat) (rvalue: val)
  | Failure (index: nat) (expected: "string list")

definition makeSuccess :: "nat \<Rightarrow> val \<Rightarrow> result" where
  "makeSuccess i v = Success i v"

definition makeFailure :: "nat \<Rightarrow> string \<Rightarrow> result" where
  "makeFailure i e = Failure i [e]"

subsection \<open>Merging results\<close>

text \<open>
  \<^verbatim>\<open>furthest\<close> is \<^verbatim>\<open>-1\<close> for a success, so it is an integer. \<^verbatim>\<open>previous\<close> may be
  \<^verbatim>\<open>undefined\<close>: an option. When the \<^verbatim>\<open>else\<close> branch is reached, \<open>next\<close> is a
  failure and \<open>furthest previous\<close> is at least its index, which is not negative, so
  \<open>previous\<close> is a failure too.
\<close>

definition furthest :: "result \<Rightarrow> int" where
  "furthest r = (if status r then - 1 else int (index r))"

definition mergeOver :: "result \<Rightarrow> result option \<Rightarrow> result" where
  "mergeOver next previous =
     (case previous of
        None \<Rightarrow> next
      | Some prev \<Rightarrow>
          if status next \<or> furthest next > furthest prev then next
          else Failure (index next) (expected next @ expected prev))"

subsection \<open>Formatting a failure\<close>

text \<open>The decimal digits of a number, as a template literal prints it.\<close>

function decimal :: "nat \<Rightarrow> string" where
  "decimal n = (if n < 10 then [''0123456789'' ! n]
                else decimal (n div 10) @ [''0123456789'' ! (n mod 10)])"
  by pat_completeness auto
termination
  by (relation "measure id") auto

text \<open>\<^verbatim>\<open>Array.prototype.join\<close> on an array of strings.\<close>

fun join :: "string \<Rightarrow> string list \<Rightarrow> string" where
  "join sep [] = []"
| "join sep [x] = x"
| "join sep (x # y # ys) = x @ sep @ join sep (y # ys)"

text \<open>\<^verbatim>\<open>String.prototype.slice(a, b)\<close> for cursors \<open>a\<close>, \<open>b\<close> that are not negative.\<close>

definition slice :: "string \<Rightarrow> nat \<Rightarrow> nat \<Rightarrow> string" where
  "slice s a b = take (b - a) (drop a s)"

definition quote :: char where
  "quote = CHR 0x27"

definition formatExpected :: "string list \<Rightarrow> string" where
  "formatExpected exps =
     (if length exps = 1 then exps ! 0 else ''one of '' @ join '', '' exps)"

text \<open>
  \<^verbatim>\<open>remainingCharsInInput\<close> is a difference of two numbers and can be negative, so the
  comparison that decides on the ellipsis is made on integers.
\<close>

definition formatGot :: "string \<Rightarrow> result \<Rightarrow> string" where
  "formatGot input err =
     (let i = index err;
          whr = ''at character '' @ decimal i
      in if i = length input then whr @ '', got end of input''
         else
           let amountOfContext = 10;
               remainingCharsInInput = int (length input) - int i;
               actualValue = slice input i (i + amountOfContext);
               actualValue' =
                 (if remainingCharsInInput > int (i + amountOfContext)
                  then actualValue @ ''...'' else actualValue)
           in whr @ '', got '' @ [quote] @ actualValue' @ [quote])"

text \<open>\<^verbatim>\<open>formatError\<close> takes the result of a failed parse: \<open>expected\<close> reads its descriptions.\<close>

definition Partser_formatError :: "string \<Rightarrow> result \<Rightarrow> string" where
  "Partser_formatError input err =
     ''expected '' @ formatExpected (expected err) @ '' '' @ formatGot input err"


section \<open>Behaviours\<close>

text \<open>
  A behaviour is the function \<^verbatim>\<open>(input, i, env, debugHandler) => result\<close> a parser
  holds. A call of it may return a result, throw, or not return at all: \<open>None\<close> is a
  call that does not return, \<open>Some (Inl e)\<close> one that throws \<open>e\<close>, and
  \<open>Some (Inr r)\<close> one that returns \<open>r\<close>. The environment is any value the caller
  chooses: a type parameter. Tracing (\<^verbatim>\<open>Partser.debug\<close> and the \<^verbatim>\<open>debugHandler\<close>
  argument) only prints, and display names are only printed by it; the model leaves both
  out, so that the entry \<^verbatim>\<open>parser._\<close> is a call of \<^verbatim>\<open>parser.behaviour\<close>.

  The functions of this section are the closures the combinators build, as functions of
  the \<^verbatim>\<open>_\<close> entries of the parsers they were given.
\<close>

type_synonym 'e behaviour = "string \<Rightarrow> nat \<Rightarrow> 'e \<Rightarrow> (error + result) option"

abbreviation Return :: "result \<Rightarrow> (error + result) option" where
  "Return r \<equiv> Some (Inr r)"

abbreviation Throw :: "error \<Rightarrow> (error + result) option" where
  "Throw e \<equiv> Some (Inl e)"

text \<open>A user's function that a template literal prints: its source text and what it computes.\<close>

type_synonym 'a jsfun = "string \<times> 'a"

type_synonym 'e chainEnv = "(val \<Rightarrow> 'e \<Rightarrow> 'e) option"

definition applyChainEnv :: "'e chainEnv \<Rightarrow> val \<Rightarrow> 'e \<Rightarrow> 'e" where
  "applyChainEnv chainEnv v env = (case chainEnv of None \<Rightarrow> env | Some f \<Rightarrow> f v env)"

subsection \<open>Strings of values\<close>

text \<open>\<^verbatim>\<open>Object.prototype.toString.call(x)\<close>, which the assertion messages print.\<close>

fun toString :: "val \<Rightarrow> string" where
  "toString VUndefined = ''[object Undefined]''"
| "toString VNull = ''[object Null]''"
| "toString (VNum n) = ''[object Number]''"
| "toString (VStr s) = ''[object String]''"
| "toString (VArr xs) = ''[object Array]''"
| "toString (VObj kvs) = ''[object Object]''"
| "toString (VParser p) = ''[object Function]''"

text \<open>
  The string a template literal makes of a value. An array joins its elements with
  commas, \<^verbatim>\<open>null\<close> and \<^verbatim>\<open>undefined\<close> elements printing as nothing; a function prints
  as its source text, which for every parser is the text of the arrow function of
  \<^verbatim>\<open>Parser\<close>.
\<close>

fun templateString :: "val \<Rightarrow> string" where
  "templateString VUndefined = ''undefined''"
| "templateString VNull = ''null''"
| "templateString (VNum n) = decimal n"
| "templateString (VStr s) = s"
| "templateString (VArr xs) =
     join '','' (map (\<lambda>x. if x = VNull \<or> x = VUndefined then [] else templateString x) xs)"
| "templateString (VObj kvs) = ''[object Object]''"
| "templateString (VParser p) =
     ''(input, env, index = 0) =>'' @ [CHR 0x0A] @
     ''    skip(parser, Partser.eof)._(input, index, env)''"

subsection \<open>Primitive parsers\<close>

definition charAt :: "string \<Rightarrow> nat \<Rightarrow> string" where
  "charAt s i = (if i < length s then [s ! i] else [])"

definition string_behaviour :: "string \<Rightarrow> 'e behaviour" where
  "string_behaviour str input i env =
     (let len = length str;
          expected = [quote] @ str @ [quote];
          head = slice input i (i + len)
      in if head = str then Return (makeSuccess (i + len) (VStr head))
         else Return (makeFailure i expected))"

text \<open>
  A regular expression is taken as given: the text \<^verbatim>\<open>`${re}`\<close> and what
  \<^verbatim>\<open>anchored.exec\<close> answers on a string, \<^verbatim>\<open>null\<close> or the match array, here its first
  element (the whole match) and the rest (the capture groups).
\<close>

record regexp =
  source :: string
  anchored_exec :: "string \<Rightarrow> (string \<times> val list) option"

definition regex_behaviour :: "regexp \<Rightarrow> nat \<Rightarrow> 'e behaviour" where
  "regex_behaviour re grp input i env =
     (case anchored_exec re (drop i input) of
        Some (fullMatch, groups) \<Rightarrow>
          let groupMatch =
                (if grp = 0 then VStr fullMatch
                 else if grp - 1 < length groups then groups ! (grp - 1)
                 else VUndefined)
          in Return (makeSuccess (i + length fullMatch) groupMatch)
      | None \<Rightarrow> Return (makeFailure i (source re)))"

definition succeed_behaviour :: "val \<Rightarrow> 'e behaviour" where
  "succeed_behaviour v input i env = Return (makeSuccess i v)"

definition fail_behaviour :: "string \<Rightarrow> 'e behaviour" where
  "fail_behaviour e input i env = Return (makeFailure i e)"

definition any_behaviour :: "'e behaviour" where
  "any_behaviour input i env =
     (if i \<ge> length input then Return (makeFailure i ''any character'')
      else Return (makeSuccess (i + 1) (VStr (charAt input i))))"

definition all_behaviour :: "'e behaviour" where
  "all_behaviour input i env = Return (makeSuccess (length input) (VStr (drop i input)))"

definition eof_behaviour :: "'e behaviour" where
  "eof_behaviour input i env =
     (if i < length input then Return (makeFailure i ''EOF'')
      else Return (makeSuccess i VNull))"

definition test_behaviour :: "(string \<Rightarrow> 'e \<Rightarrow> bool) jsfun \<Rightarrow> 'e behaviour" where
  "test_behaviour predicate input i env =
     (let char = charAt input i
      in if i < length input \<and> snd predicate char env
         then Return (makeSuccess (i + 1) (VStr char))
         else Return (makeFailure i (''a character matching '' @ fst predicate)))"

definition index_behaviour :: "'e behaviour" where
  "index_behaviour input i env = Return (makeSuccess i (VNum i))"

text \<open>\<^verbatim>\<open>String.prototype.split\<close> on a one-character separator: never an empty array.\<close>

fun split :: "char \<Rightarrow> string \<Rightarrow> string list" where
  "split c [] = [[]]"
| "split c (x # xs) =
     (if x = c then [] # split c xs
      else (case split c xs of [] \<Rightarrow> [[x]] | l # ls \<Rightarrow> (x # l) # ls))"

definition lineAndColumnOfOffset :: "string \<Rightarrow> nat \<Rightarrow> nat \<times> nat" where
  "lineAndColumnOfOffset input i =
     (let lines = split (CHR 0x0A) (slice input 0 i);
          line = length lines;
          column = length (lines ! (length lines - 1)) + 1
      in (line, column))"

definition lcIndex_behaviour :: "'e behaviour" where
  "lcIndex_behaviour input i env =
     (let (line, column) = lineAndColumnOfOffset input i
      in Return (makeSuccess i
           (VObj [(''offset'', VNum i), (''line'', VNum line), (''column'', VNum column)])))"

subsection \<open>Combinators\<close>

definition except_behaviour :: "'e behaviour \<Rightarrow> 'e behaviour \<Rightarrow> 'e behaviour" where
  "except_behaviour allowed forbidden input i env =
     (case forbidden input i env of
        None \<Rightarrow> None
      | Some (Inl e) \<Rightarrow> Throw e
      | Some (Inr forbiddenResult) \<Rightarrow>
          if status forbiddenResult
          then Return (makeFailure i
                 (''something that is not '' @ [quote] @
                    templateString (rvalue forbiddenResult) @ [quote]))
          else
            (case allowed input i env of
               None \<Rightarrow> None
             | Some (Inl e) \<Rightarrow> Throw e
             | Some (Inr allowedResult) \<Rightarrow>
                 if status allowedResult then Return allowedResult
                 else Return (makeFailure i
                        (formatExpected (expected allowedResult) @
                         '' (except '' @ formatExpected (expected forbiddenResult) @ '')''))))"

definition subEnv_behaviour :: "'e behaviour \<Rightarrow> ('e \<Rightarrow> 'e) \<Rightarrow> 'e behaviour" where
  "subEnv_behaviour baseParser deriveEnv input i env =
     (let newEnv = deriveEnv env in baseParser input i newEnv)"

text \<open>
  \<^verbatim>\<open>from\<close> and \<^verbatim>\<open>chain\<close> ask a user's function for a parser and call its \<^verbatim>\<open>_\<close>:
  \<open>call\<close> is that entry for each parser there is.
\<close>

definition from_behaviour ::
  "(pid \<Rightarrow> 'e behaviour) \<Rightarrow> ('e \<Rightarrow> val) jsfun \<Rightarrow> 'e behaviour" where
  "from_behaviour call lookup input i env =
     (let foundParser = snd lookup env
      in case foundParser of
           VParser q \<Rightarrow> call q input i env
         | _ \<Rightarrow> Throw (TypeError (''Partser.from('' @ fst lookup @ ''): Not a parser: '' @
                   toString foundParser)))"

text \<open>
  The loop of \<^verbatim>\<open>seq\<close>, from parser \<open>j\<close> on: \<open>result\<close> is \<^verbatim>\<open>undefined\<close> before the
  first parser ran, and \<open>accum\<close> holds the values so far.
\<close>

fun seq_loop ::
  "'e behaviour list \<Rightarrow> 'e chainEnv \<Rightarrow> string \<Rightarrow> nat \<Rightarrow> 'e \<Rightarrow> result option \<Rightarrow> val list
     \<Rightarrow> (error + result) option" where
  "seq_loop [] chainEnv input i env result accum =
     Return (mergeOver (makeSuccess i (VArr accum)) result)"
| "seq_loop (p # ps) chainEnv input i env result accum =
     (case p input i env of
        None \<Rightarrow> None
      | Some (Inl e) \<Rightarrow> Throw e
      | Some (Inr nextResult) \<Rightarrow>
          let result' = mergeOver nextResult result
          in if \<not> status result' then Return result'
             else seq_loop ps chainEnv input (index result')
                    (applyChainEnv chainEnv (rvalue result') env)
                    (Some result') (accum @ [rvalue result']))"

definition seq_behaviour :: "'e behaviour list \<Rightarrow> 'e chainEnv \<Rightarrow> 'e behaviour" where
  "seq_behaviour parsers chainEnv input i env = seq_loop parsers chainEnv input i env None []"

text \<open>
  The loop of \<^verbatim>\<open>alt\<close>. \<^verbatim>\<open>Partser.alt\<close> refuses an empty array, so the loop never ends
  with \<open>result\<close> still \<^verbatim>\<open>undefined\<close>; a caller handed \<^verbatim>\<open>undefined\<close> would throw on
  reading its \<^verbatim>\<open>status\<close>.
\<close>

fun alt_loop ::
  "'e behaviour list \<Rightarrow> string \<Rightarrow> nat \<Rightarrow> 'e \<Rightarrow> result option \<Rightarrow> (error + result) option" where
  "alt_loop [] input i env result =
     (case result of
        Some r \<Rightarrow> Return r
      | None \<Rightarrow> Throw (TypeError ''Cannot read properties of undefined (reading status)''))"
| "alt_loop (p # ps) input i env result =
     (case p input i env of
        None \<Rightarrow> None
      | Some (Inl e) \<Rightarrow> Throw e
      | Some (Inr r) \<Rightarrow>
          let result' = mergeOver r result
          in if status result' then Return result'
             else alt_loop ps input i env (Some result'))"

definition alt_behaviour :: "'e behaviour list \<Rightarrow> 'e behaviour" where
  "alt_behaviour parsers input i env = alt_loop parsers input i env None"

text \<open>
  The second loop of \<^verbatim>\<open>times\<close>: up to \<open>max'\<close>, which may be \<^verbatim>\<open>Infinity\<close>. With a
  parser that succeeds without end the loop does not return.
\<close>

partial_function (option) times_optional ::
  "'e behaviour \<Rightarrow> enat \<Rightarrow> 'e chainEnv \<Rightarrow> string \<Rightarrow> val list \<Rightarrow> nat \<Rightarrow> nat \<Rightarrow> 'e
     \<Rightarrow> result option \<Rightarrow> (error + result) option" where
  "times_optional parser max' chainEnv input successes times' index' env previousResult =
     (if enat times' < max' then
        (case parser input index' env of
           None \<Rightarrow> None
         | Some (Inl e) \<Rightarrow> Throw e
         | Some (Inr result) \<Rightarrow>
             let mergedResult = mergeOver result previousResult
             in if status result
                then times_optional parser max' chainEnv input
                       (successes @ [rvalue result]) (Suc times') (index result)
                       (applyChainEnv chainEnv (rvalue result) env) (Some mergedResult)
                else Return (makeSuccess index' (VArr successes)))
      else Return (makeSuccess index' (VArr successes)))"

text \<open>The first loop of \<^verbatim>\<open>times\<close>, up to \<open>min'\<close>, followed by the second.\<close>

function times_required ::
  "'e behaviour \<Rightarrow> nat \<Rightarrow> enat \<Rightarrow> 'e chainEnv \<Rightarrow> string \<Rightarrow> val list \<Rightarrow> nat \<Rightarrow> nat \<Rightarrow> 'e
     \<Rightarrow> result option \<Rightarrow> (error + result) option" where
  "times_required parser min' max' chainEnv input successes times' index' env previousResult =
     (if times' < min' then
        (case parser input index' env of
           None \<Rightarrow> None
         | Some (Inl e) \<Rightarrow> Throw e
         | Some (Inr result) \<Rightarrow>
             let mergedResult = mergeOver result previousResult
             in if status result
                then times_required parser min' max' chainEnv input
                       (successes @ [rvalue result]) (Suc times') (index result)
                       (applyChainEnv chainEnv (rvalue result) env) (Some mergedResult)
                else Return mergedResult)
      else times_optional parser max' chainEnv input successes times' index' env previousResult)"
  by pat_completeness auto
termination
  by (relation "measure (\<lambda>(parser, min', max', chainEnv, input, successes, times', rest). min' - times')")
     auto

declare times_required.simps [simp del]

declare times_optional.simps [code]

definition times_behaviour :: "'e behaviour \<Rightarrow> nat \<Rightarrow> enat \<Rightarrow> 'e chainEnv \<Rightarrow> 'e behaviour" where
  "times_behaviour parser min' max' chainEnv input i env =
     times_required parser min' max' chainEnv input [] 0 i env None"

definition map_behaviour :: "'e behaviour \<Rightarrow> (val \<Rightarrow> 'e \<Rightarrow> val) \<Rightarrow> 'e behaviour" where
  "map_behaviour parser fn input i env =
     (case parser input i env of
        None \<Rightarrow> None
      | Some (Inl e) \<Rightarrow> Throw e
      | Some (Inr result) \<Rightarrow>
          if \<not> status result then Return result
          else Return (makeSuccess (index result) (fn (rvalue result) env)))"

definition desc_behaviour :: "'e behaviour \<Rightarrow> string \<Rightarrow> 'e behaviour" where
  "desc_behaviour parser expected' input i env =
     (case parser input i env of
        None \<Rightarrow> None
      | Some (Inl e) \<Rightarrow> Throw e
      | Some (Inr result) \<Rightarrow>
          if \<not> status result then Return (Failure (index result) [expected'])
          else Return result)"

text \<open>
  \<^verbatim>\<open>chain\<close> does not assert that the function answered with a parser: the call of
  \<^verbatim>\<open>nextParser._\<close> throws the engine's own \<^verbatim>\<open>TypeError\<close> (the messages are those of
  V8).
\<close>

definition chain_behaviour ::
  "(pid \<Rightarrow> 'e behaviour) \<Rightarrow> 'e behaviour \<Rightarrow> (val \<Rightarrow> 'e \<Rightarrow> val) \<Rightarrow> 'e behaviour" where
  "chain_behaviour call parser lookup input i env =
     (case parser input i env of
        None \<Rightarrow> None
      | Some (Inl e) \<Rightarrow> Throw e
      | Some (Inr result) \<Rightarrow>
          if \<not> status result then Return result
          else
            (case lookup (rvalue result) env of
               VParser nextParser \<Rightarrow> call nextParser input (index result) env
             | VUndefined \<Rightarrow>
                 Throw (TypeError (''Cannot read properties of undefined (reading '' @
                   [quote] @ ''_'' @ [quote] @ '')''))
             | VNull \<Rightarrow>
                 Throw (TypeError (''Cannot read properties of null (reading '' @
                   [quote] @ ''_'' @ [quote] @ '')''))
             | _ \<Rightarrow> Throw (TypeError ''nextParser._ is not a function'')))"

section \<open>Parsers in the store\<close>

text \<open>
  Each combinator returns \<^verbatim>\<open>Parser(name, closure)\<close>, a new function object whose
  \<^verbatim>\<open>behaviour\<close> property holds the closure; \<^verbatim>\<open>Partser.replace\<close> assigns to that
  property, and every closure that captured the parser sees the assignment at its next
  call. So the model keeps the \<^verbatim>\<open>behaviour\<close> properties in a store, a parser being its
  address there, and a closure is a value of the datatype \<open>beh\<close>: which combinator built
  it and what it captured, parsers by address. A behaviour given to \<^verbatim>\<open>Partser.custom\<close>
  is any function; it is taken not to call parsers itself.
\<close>

datatype 'e beh =
    BExcept pid pid
  | BSubEnv pid "'e \<Rightarrow> 'e"
  | BFrom "('e \<Rightarrow> val) jsfun"
  | BSeq "pid list" "'e chainEnv"
  | BCustom "'e behaviour"
  | BAlt "pid list"
  | BTimes pid nat enat "'e chainEnv"
  | BMap pid "val \<Rightarrow> 'e \<Rightarrow> val"
  | BDesc pid string
  | BString string
  | BRegex regexp nat
  | BSucceed val
  | BFail string
  | BAny
  | BAll
  | BEof
  | BTest "(string \<Rightarrow> 'e \<Rightarrow> bool) jsfun"
  | BIndex
  | BLcIndex
  | BChain pid "val \<Rightarrow> 'e \<Rightarrow> val"

type_synonym 'e store = "'e beh list"

text \<open>A call of the closure \<open>b\<close>, where \<open>call p\<close> is the entry \<^verbatim>\<open>p._\<close>.\<close>

fun apply_behaviour :: "(pid \<Rightarrow> 'e behaviour) \<Rightarrow> 'e beh \<Rightarrow> 'e behaviour" where
  "apply_behaviour call (BExcept allowed forbidden) =
     except_behaviour (call allowed) (call forbidden)"
| "apply_behaviour call (BSubEnv baseParser deriveEnv) =
     subEnv_behaviour (call baseParser) deriveEnv"
| "apply_behaviour call (BFrom lookup) = from_behaviour call lookup"
| "apply_behaviour call (BSeq parsers chainEnv) = seq_behaviour (map call parsers) chainEnv"
| "apply_behaviour call (BCustom parsingFunction) = parsingFunction"
| "apply_behaviour call (BAlt parsers) = alt_behaviour (map call parsers)"
| "apply_behaviour call (BTimes parser min' max' chainEnv) =
     times_behaviour (call parser) min' max' chainEnv"
| "apply_behaviour call (BMap parser fn) = map_behaviour (call parser) fn"
| "apply_behaviour call (BDesc parser expected') = desc_behaviour (call parser) expected'"
| "apply_behaviour call (BString str) = string_behaviour str"
| "apply_behaviour call (BRegex re grp) = regex_behaviour re grp"
| "apply_behaviour call (BSucceed v) = succeed_behaviour v"
| "apply_behaviour call (BFail expected') = fail_behaviour expected'"
| "apply_behaviour call BAny = any_behaviour"
| "apply_behaviour call BAll = all_behaviour"
| "apply_behaviour call BEof = eof_behaviour"
| "apply_behaviour call (BTest predicate) = test_behaviour predicate"
| "apply_behaviour call BIndex = index_behaviour"
| "apply_behaviour call BLcIndex = lcIndex_behaviour"
| "apply_behaviour call (BChain parser lookup) = chain_behaviour call (call parser) lookup"

text \<open>
  The entry \<^verbatim>\<open>parser._\<close>: a call of the behaviour the parser holds now. Grammars may
  be recursive (through \<^verbatim>\<open>from\<close>, \<^verbatim>\<open>chain\<close> and \<^verbatim>\<open>replace\<close>), so the calls may nest
  without end; \<open>depth\<close> bounds the nesting, and the entry is \<open>None\<close> where the call
  needs a deeper nesting than \<open>depth\<close>. A call that returns does so at some depth and
  at every greater one (\<open>parser_underscore_mono\<close> below). An address outside the store is
  no parser of the program; a call of it has no result.
\<close>

fun parser_underscore :: "nat \<Rightarrow> 'e store \<Rightarrow> pid \<Rightarrow> 'e behaviour" where
  "parser_underscore 0 st p input i env = None"
| "parser_underscore (Suc depth) st p input i env =
     (if p < length st
      then apply_behaviour (parser_underscore depth st) (st ! p) input i env
      else None)"

text \<open>\<^verbatim>\<open>Parser(name, behaviour)\<close>: a new parser, at the next free address.\<close>

definition Parser :: "'e store \<Rightarrow> 'e beh \<Rightarrow> 'e store \<times> pid" where
  "Parser st behaviour = (st @ [behaviour], length st)"

text \<open>
  The parsers the module makes when it is loaded, in the order of the file:
  \<^verbatim>\<open>Partser.any\<close>, \<^verbatim>\<open>Partser.all\<close>, \<^verbatim>\<open>Partser.eof\<close>, \<^verbatim>\<open>Partser.index\<close> and
  \<^verbatim>\<open>Partser.lcIndex\<close>.
\<close>

definition Partser_any :: pid where "Partser_any = 0"
definition Partser_all :: pid where "Partser_all = 1"
definition Partser_eof :: pid where "Partser_eof = 2"
definition Partser_index :: pid where "Partser_index = 3"
definition Partser_lcIndex :: pid where "Partser_lcIndex = 4"

definition Partser_store :: "'e store" where
  "Partser_store = [BAny, BAll, BEof, BIndex, BLcIndex]"

text \<open>
  The combinators. Their arguments are typed, so the assertions on them
  (\<^verbatim>\<open>assertParser\<close>, \<^verbatim>\<open>assertFunction\<close>, \<^verbatim>\<open>assertString\<close>, \<^verbatim>\<open>assertNumber\<close>,
  \<^verbatim>\<open>assertRegexp\<close>) hold; what is left to throw at construction is \<^verbatim>\<open>alt\<close> on an
  empty array. \<open>min'\<close> is a natural number and \<open>max'\<close> a natural number or
  \<^verbatim>\<open>Infinity\<close>.
\<close>

definition Partser_except :: "'e store \<Rightarrow> pid \<Rightarrow> pid \<Rightarrow> 'e store \<times> pid" where
  "Partser_except st allowed forbidden = Parser st (BExcept allowed forbidden)"

definition Partser_subEnv :: "'e store \<Rightarrow> pid \<Rightarrow> ('e \<Rightarrow> 'e) \<Rightarrow> 'e store \<times> pid" where
  "Partser_subEnv st baseParser deriveEnv = Parser st (BSubEnv baseParser deriveEnv)"

definition Partser_from :: "'e store \<Rightarrow> ('e \<Rightarrow> val) jsfun \<Rightarrow> 'e store \<times> pid" where
  "Partser_from st lookup = Parser st (BFrom lookup)"

definition Partser_seq :: "'e store \<Rightarrow> pid list \<Rightarrow> 'e chainEnv \<Rightarrow> 'e store \<times> pid" where
  "Partser_seq st parsers chainEnv = Parser st (BSeq parsers chainEnv)"

text \<open>
  \<^verbatim>\<open>Partser.custom\<close> stores the behaviour it is given as it is: a user's function
  \<open>g\<close> is the closure \<open>BCustom g\<close>, and \<^verbatim>\<open>Partser.clone\<close> passes the closure of
  another parser.
\<close>

definition Partser_custom :: "'e store \<Rightarrow> 'e beh \<Rightarrow> 'e store \<times> pid" where
  "Partser_custom st parsingFunction = Parser st parsingFunction"

definition Partser_alt :: "'e store \<Rightarrow> pid list \<Rightarrow> error + 'e store \<times> pid" where
  "Partser_alt st parsers =
     (if length parsers = 0 then Inl (TypeError ''Partser.alt: Zero alternates'')
      else Inr (Parser st (BAlt parsers)))"

definition Partser_times ::
  "'e store \<Rightarrow> pid \<Rightarrow> nat \<Rightarrow> enat option \<Rightarrow> 'e chainEnv \<Rightarrow> 'e store \<times> pid" where
  "Partser_times st parser min' max' chainEnv =
     (let max'' = (case max' of None \<Rightarrow> enat min' | Some m \<Rightarrow> m)
      in Parser st (BTimes parser min' max'' chainEnv))"

definition Partser_map :: "'e store \<Rightarrow> pid \<Rightarrow> (val \<Rightarrow> 'e \<Rightarrow> val) \<Rightarrow> 'e store \<times> pid" where
  "Partser_map st parser fn = Parser st (BMap parser fn)"

definition Partser_desc :: "'e store \<Rightarrow> pid \<Rightarrow> string \<Rightarrow> 'e store \<times> pid" where
  "Partser_desc st parser expected' = Parser st (BDesc parser expected')"

definition Partser_string :: "'e store \<Rightarrow> string \<Rightarrow> 'e store \<times> pid" where
  "Partser_string st str = Parser st (BString str)"

definition Partser_regex :: "'e store \<Rightarrow> regexp \<Rightarrow> nat \<Rightarrow> 'e store \<times> pid" where
  "Partser_regex st re grp = Parser st (BRegex re grp)"

definition Partser_succeed :: "'e store \<Rightarrow> val \<Rightarrow> 'e store \<times> pid" where
  "Partser_succeed st v = Parser st (BSucceed v)"

definition Partser_fail :: "'e store \<Rightarrow> string \<Rightarrow> 'e store \<times> pid" where
  "Partser_fail st expected' = Parser st (BFail expected')"

definition Partser_test ::
  "'e store \<Rightarrow> (string \<Rightarrow> 'e \<Rightarrow> bool) jsfun \<Rightarrow> 'e store \<times> pid" where
  "Partser_test st predicate = Parser st (BTest predicate)"

definition Partser_chain :: "'e store \<Rightarrow> pid \<Rightarrow> (val \<Rightarrow> 'e \<Rightarrow> val) \<Rightarrow> 'e store \<times> pid" where
  "Partser_chain st parser lookup = Parser st (BChain parser lookup)"

text \<open>
  The elements a spread or a destructuring takes from the array a \<^verbatim>\<open>seq\<close> returned,
  and the \<open>n\<close>-th of them, \<^verbatim>\<open>undefined\<close> past the end.
\<close>

fun spread :: "val \<Rightarrow> val list" where
  "spread (VArr xs) = xs"
| "spread v = []"

definition arg :: "val list \<Rightarrow> nat \<Rightarrow> val" where
  "arg xs n = (if n < length xs then xs ! n else VUndefined)"

definition seqMap :: "'e store \<Rightarrow> pid list \<Rightarrow> (val list \<Rightarrow> val) \<Rightarrow> 'e store \<times> pid" where
  "seqMap st args mapper =
     (let (st1, s) = Partser_seq st args None
      in Partser_map st1 s (\<lambda>results env. mapper (spread results)))"

definition envelope :: "val list \<Rightarrow> val" where
  "envelope xs = VObj [(''start'', arg xs 0), (''value'', arg xs 1), (''end'', arg xs 2)]"

definition Partser_mark :: "'e store \<Rightarrow> pid \<Rightarrow> 'e store \<times> pid" where
  "Partser_mark st parser = seqMap st [Partser_index, parser, Partser_index] envelope"

definition Partser_lcMark :: "'e store \<Rightarrow> pid \<Rightarrow> 'e store \<times> pid" where
  "Partser_lcMark st parser = seqMap st [Partser_lcIndex, parser, Partser_lcIndex] envelope"

text \<open>\<^verbatim>\<open>skip\<close>: the sequence of the parsers, mapped by \<^verbatim>\<open>([x]) => x\<close> to its first value.\<close>

definition skip :: "'e store \<Rightarrow> pid list \<Rightarrow> 'e store \<times> pid" where
  "skip st parsers =
     (let (st1, s) = Partser_seq st parsers None
      in Partser_map st1 s (\<lambda>xs env. arg (spread xs) 0))"

text \<open>
  The parser called as a function, \<^verbatim>\<open>parser(input, env, index = 0)\<close>: it builds
  \<^verbatim>\<open>skip(parser, Partser.eof)\<close> and calls its \<^verbatim>\<open>_\<close>. Nothing keeps the two parsers
  \<^verbatim>\<open>skip\<close> made, so the store of the caller is as it was.
\<close>

definition parser :: "nat \<Rightarrow> 'e store \<Rightarrow> pid \<Rightarrow> string \<Rightarrow> 'e \<Rightarrow> nat \<Rightarrow> (error + result) option" where
  "parser depth st p input env i =
     (let (st', s) = skip st [p, Partser_eof]
      in parser_underscore depth st' s input i env)"

text \<open>\<^verbatim>\<open>Partser.clone\<close> and \<^verbatim>\<open>Partser.replace\<close>.\<close>

definition Partser_clone :: "'e store \<Rightarrow> pid \<Rightarrow> 'e store \<times> pid" where
  "Partser_clone st p = (let newParser = Partser_custom st (st ! p) in newParser)"

definition Partser_replace :: "'e store \<Rightarrow> pid \<Rightarrow> pid \<Rightarrow> 'e store" where
  "Partser_replace st original replacement = st[original := st ! replacement]"

section \<open>Notions for the statements\<close>

text \<open>
  \<open>below p p'\<close>: wherever a call of \<open>p\<close> ends (returning or throwing), the same
  call of \<open>p'\<close> ends the same way.
\<close>

definition below :: "'e behaviour \<Rightarrow> 'e behaviour \<Rightarrow> bool" where
  "below p p' \<longleftrightarrow> (\<forall>input i env r. p input i env = Some r \<longrightarrow> p' input i env = Some r)"

text \<open>
  \<open>reps p chainEnv input i env k vs j env'\<close>: from the cursor \<open>i\<close> and the
  environment \<open>env\<close>, \<open>k\<close> calls of \<open>p\<close> in a row succeed, each from the cursor
  the one before reached and in the environment \<open>chainEnv\<close> made of its value; \<open>vs\<close>
  are their values, \<open>j\<close> the cursor after the last and \<open>env'\<close> the environment then.
\<close>

inductive reps ::
  "'e behaviour \<Rightarrow> 'e chainEnv \<Rightarrow> string \<Rightarrow> nat \<Rightarrow> 'e \<Rightarrow> nat \<Rightarrow> val list \<Rightarrow> nat \<Rightarrow> 'e \<Rightarrow> bool"
  for p :: "'e behaviour" and chainEnv :: "'e chainEnv" and input :: string where
  reps_0: "reps p chainEnv input i env 0 [] i env"
| reps_Suc:
    "p input i env = Return (Success i' v) \<Longrightarrow>
     reps p chainEnv input i' (applyChainEnv chainEnv v env) k vs j env' \<Longrightarrow>
     reps p chainEnv input i env (Suc k) (v # vs) j env'"

code_pred reps .

text \<open>\<open>previous\<close> is \<^verbatim>\<open>undefined\<close> or a success.\<close>

definition no_failure :: "result option \<Rightarrow> bool" where
  "no_failure prev \<longleftrightarrow> (case prev of None \<Rightarrow> True | Some r \<Rightarrow> status r)"

text \<open>
  \<open>forward p\<close>: a success of \<open>p\<close> is never before the cursor \<open>p\<close> started at.
  \<open>customs_forward st\<close>: every behaviour given to \<^verbatim>\<open>Partser.custom\<close> in the store
  is so. \<open>no_retreat p\<close>: a success of \<open>p\<close> is never before both the cursor
  \<open>p\<close> started at and the end of the input.
\<close>

definition forward :: "'e behaviour \<Rightarrow> bool" where
  "forward p \<longleftrightarrow> (\<forall>input i env j v. p input i env = Return (Success j v) \<longrightarrow> i \<le> j)"

definition customs_forward :: "'e store \<Rightarrow> bool" where
  "customs_forward st \<longleftrightarrow> (\<forall>g. BCustom g \<in> set st \<longrightarrow> forward g)"

definition no_retreat :: "'e behaviour \<Rightarrow> bool" where
  "no_retreat p \<longleftrightarrow>
     (\<forall>input i env j v. p input i env = Return (Success j v) \<longrightarrow> min i (length input) \<le> j)"

section \<open>Properties\<close>

subsection \<open>mergeOver\<close>

lemma mergeOver_undefined: "mergeOver next None = next"
  by (simp add: mergeOver_def)

lemma mergeOver_success: "mergeOver (Success i v) previous = Success i v"
  by (simp add: mergeOver_def split: option.splits)

lemma mergeOver_over_success:
  "mergeOver (Failure i es) (Some (Success j v)) = Failure i es"
  by (simp add: mergeOver_def furthest_def)

lemma mergeOver_failures:
  "mergeOver (Failure i es) (Some (Failure j fs)) =
     (if j < i then Failure i es else Failure i (es @ fs))"
  by (simp add: mergeOver_def furthest_def)

lemma mergeOver_status: "status r \<Longrightarrow> mergeOver r prev = r"
  by (simp add: mergeOver_def split: option.splits)

lemma mergeOver_no_failure: "no_failure prev \<Longrightarrow> mergeOver r prev = r"
  by (cases r; cases prev) (auto simp: no_failure_def mergeOver_def furthest_def)

lemma mergeOver_Success:
  "mergeOver r prev = Success j v \<Longrightarrow> r = Success j v"
  by (cases r) (auto simp: mergeOver_def split: option.splits if_splits)

lemma mergeOver_status_iff: "status (mergeOver r prev) \<longleftrightarrow> status r"
  by (cases r) (auto simp: mergeOver_def split: option.splits)

lemma mergeOver_status_eq: "status (mergeOver r prev) \<Longrightarrow> mergeOver r prev = r"
  by (simp add: mergeOver_status_iff mergeOver_status)

lemma mergeOver_failure_not_success: "\<not> status r \<Longrightarrow> mergeOver r prev \<noteq> Success j v"
  using mergeOver_status_iff[of r prev] by (metis result.disc(1))

text \<open>
  C1. When \<open>next\<close> fails strictly before the place where \<open>previous\<close> failed,
  \<^verbatim>\<open>mergeOver\<close> returns a failure at the index of \<open>next\<close>, not at the index of
  \<open>previous\<close>, with both description lists: \<open>next\<close> failing at 0 expecting \<open>'c'\<close>
  merged over \<open>previous\<close> failing at 1 expecting \<open>'b'\<close> gives a failure at 0
  expecting \<open>'c'\<close>, \<open>'b'\<close>.
\<close>

theorem mergeOver_keeps_next_index:
  "mergeOver (Failure 0 [[quote, CHR ''c'', quote]]) (Some (Failure 1 [[quote, CHR ''b'', quote]]))
     = Failure 0 [[quote, CHR ''c'', quote], [quote, CHR ''b'', quote]]"
  by (simp add: mergeOver_def furthest_def)

subsection \<open>A call that ends, ends the same way at a greater depth and in a larger store\<close>

lemma belowI:
  "(\<And>input i env r. p input i env = Some r \<Longrightarrow> p' input i env = Some r) \<Longrightarrow> below p p'"
  by (simp add: below_def)

lemma belowD: "below p p' \<Longrightarrow> p input i env = Some r \<Longrightarrow> p' input i env = Some r"
  by (simp add: below_def)

lemma seq_loop_mono:
  assumes "list_all2 below ps ps'"
  shows "seq_loop ps ce input i env res acc = Some r \<Longrightarrow> seq_loop ps' ce input i env res acc = Some r"
  using assms
proof (induction ps ps' arbitrary: i env res acc rule: list_all2_induct)
  case Nil
  then show ?case by simp
next
  case (Cons p ps p' ps')
  from Cons.prems obtain o1 where o1: "p input i env = Some o1"
    by (auto split: option.splits)
  with Cons.hyps have o1': "p' input i env = Some o1" by (simp add: belowD)
  from Cons.prems o1 o1' Cons.IH show ?case
    by (cases o1) (auto simp: Let_def split: if_splits)
qed

lemma alt_loop_mono:
  assumes "list_all2 below ps ps'"
  shows "alt_loop ps input i env res = Some r \<Longrightarrow> alt_loop ps' input i env res = Some r"
  using assms
proof (induction ps ps' arbitrary: res rule: list_all2_induct)
  case Nil
  then show ?case by simp
next
  case (Cons p ps p' ps')
  from Cons.prems obtain o1 where o1: "p input i env = Some o1"
    by (auto split: option.splits)
  with Cons.hyps have o1': "p' input i env = Some o1" by (simp add: belowD)
  from Cons.prems o1 o1' Cons.IH show ?case
    by (cases o1) (auto simp: Let_def split: if_splits)
qed

lemma times_optional_mono:
  assumes run: "times_optional p mx ce input succs t ix env prev = Some r" and b: "below p p'"
  shows "times_optional p' mx ce input succs t ix env prev = Some r"
proof -
  have "\<forall>p'. below p p' \<longrightarrow> times_optional p' mx ce input succs t ix env prev = Some r"
  proof (rule times_optional.raw_induct
      [where P = "\<lambda>p mx ce input succs t ix env prev r.
        \<forall>p'. below p p' \<longrightarrow> times_optional p' mx ce input succs t ix env prev = Some r",
        OF _ run], goal_cases)
    case (1 rec p mx ce input succs t ix env prev r)
    show ?case
    proof (intro allI impI)
      fix p' :: "'a behaviour"
      assume b: "below p p'"
      show "times_optional p' mx ce input succs t ix env prev = Some r"
      proof (cases "enat t < mx")
        case False
        with 1(2) show ?thesis by (subst times_optional.simps) simp
      next
        case True
        with 1(2) obtain o1 where o1: "p input ix env = Some o1"
          by (auto split: option.splits)
        with b have o1': "p' input ix env = Some o1" by (simp add: belowD)
        show ?thesis
        proof (cases o1)
          case (Inl e)
          with 1(2) True o1 o1' show ?thesis by (subst times_optional.simps) auto
        next
          case (Inr res)
          show ?thesis
          proof (cases "status res")
            case False
            with 1(2) True o1 o1' Inr show ?thesis by (subst times_optional.simps) auto
          next
            case st: True
            with 1(2) True o1 Inr
            have "rec p mx ce input (succs @ [rvalue res]) (Suc t) (index res)
                    (applyChainEnv ce (rvalue res) env) (Some (mergeOver res prev)) = Some r"
              by (simp add: Let_def)
            from 1(1)[OF this] b True o1' Inr st show ?thesis
              by (subst times_optional.simps) (simp add: Let_def)
          qed
        qed
      qed
    qed
  qed
  with b show ?thesis by blast
qed

lemma times_required_mono:
  assumes "times_required p mn mx ce input succs t ix env prev = Some r" and "below p p'"
  shows "times_required p' mn mx ce input succs t ix env prev = Some r"
  using assms
proof (induction p mn mx ce input succs t ix env prev rule: times_required.induct)
  case (1 p mn mx ce input succs t ix env prev)
  note unf = times_required.simps[of p mn mx ce input succs t ix env prev]
  note unf' = times_required.simps[of p' mn mx ce input succs t ix env prev]
  show ?case
  proof (cases "t < mn")
    case False
    with 1(2) have "times_optional p mx ce input succs t ix env prev = Some r"
      by (simp add: unf)
    from times_optional_mono[OF this 1(3)] False show ?thesis by (simp add: unf')
  next
    case True
    with 1(2) obtain o1 where o1: "p input ix env = Some o1"
      by (auto simp: unf split: option.splits)
    with 1(3) have o1': "p' input ix env = Some o1" by (simp add: belowD)
    show ?thesis
    proof (cases o1)
      case (Inl e)
      with 1(2) True o1 o1' show ?thesis by (auto simp: unf unf')
    next
      case (Inr res)
      show ?thesis
      proof (cases "status res")
        case False
        with 1(2) True o1 o1' Inr show ?thesis by (auto simp: unf unf')
      next
        case st: True
        with 1(2) True o1 Inr
        have "times_required p mn mx ce input (succs @ [rvalue res]) (Suc t) (index res)
                (applyChainEnv ce (rvalue res) env) (Some (mergeOver res prev)) = Some r"
          by (simp add: unf Let_def)
        from 1(1)[OF True o1 Inr refl st this 1(3)] True o1' Inr st show ?thesis
          by (simp add: unf' Let_def)
      qed
    qed
  qed
qed

lemma except_behaviour_mono:
  "below a a' \<Longrightarrow> below f f' \<Longrightarrow> below (except_behaviour a f) (except_behaviour a' f')"
  unfolding below_def except_behaviour_def
  by (auto split: option.splits sum.splits if_splits)

lemma subEnv_behaviour_mono:
  "below p p' \<Longrightarrow> below (subEnv_behaviour p d) (subEnv_behaviour p' d)"
  unfolding below_def subEnv_behaviour_def by simp

lemma from_behaviour_mono:
  "(\<And>q. below (call q) (call' q)) \<Longrightarrow> below (from_behaviour call l) (from_behaviour call' l)"
  unfolding below_def from_behaviour_def
  by (auto simp: Let_def split: val.splits)

lemma map_behaviour_mono:
  "below p p' \<Longrightarrow> below (map_behaviour p fn) (map_behaviour p' fn)"
  unfolding below_def map_behaviour_def
  by (auto split: option.splits sum.splits if_splits)

lemma desc_behaviour_mono:
  "below p p' \<Longrightarrow> below (desc_behaviour p e) (desc_behaviour p' e)"
  unfolding below_def desc_behaviour_def
  by (auto split: option.splits sum.splits if_splits)

lemma chain_behaviour_mono:
  "(\<And>q. below (call q) (call' q)) \<Longrightarrow> below p p'
     \<Longrightarrow> below (chain_behaviour call p l) (chain_behaviour call' p' l)"
  unfolding below_def chain_behaviour_def
  by (auto split: option.splits sum.splits if_splits val.splits)

lemma list_all2_below_map:
  "(\<And>q. below (call q) (call' q)) \<Longrightarrow> list_all2 below (map call ps) (map call' ps)"
  by (induction ps) simp_all

lemma seq_behaviour_mono:
  "list_all2 below ps ps' \<Longrightarrow> below (seq_behaviour ps ce) (seq_behaviour ps' ce)"
  unfolding seq_behaviour_def by (rule belowI) (rule seq_loop_mono)

lemma alt_behaviour_mono:
  "list_all2 below ps ps' \<Longrightarrow> below (alt_behaviour ps) (alt_behaviour ps')"
  unfolding alt_behaviour_def by (rule belowI) (rule alt_loop_mono)

lemma times_behaviour_mono:
  "below p p' \<Longrightarrow> below (times_behaviour p mn mx ce) (times_behaviour p' mn mx ce)"
  unfolding times_behaviour_def by (rule belowI) (rule times_required_mono)

lemma below_refl: "below p p"
  by (simp add: below_def)

lemma apply_behaviour_mono:
  assumes "\<And>q. below (call q) (call' q)"
  shows "below (apply_behaviour call b) (apply_behaviour call' b)"
  using assms
  by (cases b)
     (simp_all add: except_behaviour_mono subEnv_behaviour_mono from_behaviour_mono
        seq_behaviour_mono alt_behaviour_mono times_behaviour_mono map_behaviour_mono
        desc_behaviour_mono chain_behaviour_mono list_all2_below_map below_refl)

lemma parser_underscore_mono:
  "d \<le> d' \<Longrightarrow> prefix st st' \<Longrightarrow> below (parser_underscore d st p) (parser_underscore d' st' p)"
proof (induction d arbitrary: d' p)
  case 0
  then show ?case by (simp add: below_def)
next
  case (Suc d)
  from Suc.prems obtain e where d': "d' = Suc e" and le: "d \<le> e"
    by (cases d') auto
  show ?case
  proof (cases "p < length st")
    case False
    then show ?thesis by (simp add: below_def)
  next
    case True
    with Suc.prems(2) have p: "p < length st'" "st' ! p = st ! p"
      by (auto simp: prefix_def nth_append)
    have "below (apply_behaviour (parser_underscore d st) (st ! p))
                (apply_behaviour (parser_underscore e st') (st ! p))"
      by (rule apply_behaviour_mono) (rule Suc.IH[OF le Suc.prems(2)])
    with True p d' show ?thesis by (simp add: below_def)
  qed
qed

subsection \<open>Formatting a failure\<close>

text \<open>What \<^verbatim>\<open>formatError\<close> prints for a failure, in one equation.\<close>

lemma formatError_Failure:
  "Partser_formatError input (Failure i es) =
     ''expected '' @ (if length es = 1 then es ! 0 else ''one of '' @ join '', '' es) @
     '' at character '' @ decimal i @
     (if i = length input then '', got end of input''
      else '', got '' @ [quote] @ take 10 (drop i input) @
           (if 2 * i + 10 < length input then ''...'' else []) @ [quote])"
  by (simp add: Partser_formatError_def formatExpected_def formatGot_def slice_def Let_def)

text \<open>
  C3. The ellipsis is not appended exactly when more than 10 characters remain: the code
  compares the number of remaining characters with \<open>i + 10\<close>, not with 10. The sequence
  \<open>'abcde'\<close> then \<open>'X'\<close> fails on the 20 characters \<open>abcdefghijklmnopqrst\<close> at
  index 5, where 15 characters remain and 10 of them are shown; \<^verbatim>\<open>formatError\<close> prints
  the 10 characters without the ellipsis.
\<close>

theorem formatError_drops_ellipsis:
  "(let (st1, a) = Partser_string (Partser_store :: unit store) ''abcde'';
        (st2, x) = Partser_string st1 ''X'';
        (st3, s) = Partser_seq st2 [a, x] None
    in parser 4 st3 s ''abcdefghijklmnopqrst'' () 0)
     = Return (Failure 5 [[quote] @ ''X'' @ [quote]]) \<and>
   length (drop 5 ''abcdefghijklmnopqrst'') = 15 \<and>
   Partser_formatError ''abcdefghijklmnopqrst'' (Failure 5 [[quote] @ ''X'' @ [quote]])
     = ''expected '' @ [quote] @ ''X'' @ [quote] @ '' at character 5, got '' @
       [quote] @ ''fghijklmno'' @ [quote]"
  by code_simp

subsection \<open>The complete parse\<close>

lemma skip_eq:
  "skip st ps = (st @ [BSeq ps None, BMap (length st) (\<lambda>xs env. arg (spread xs) 0)], Suc (length st))"
  by (simp add: skip_def Partser_seq_def Partser_map_def Parser_def)

lemma parser_underscore_Suc:
  "p < length st \<Longrightarrow>
     parser_underscore (Suc d) st p = apply_behaviour (parser_underscore d st) (st ! p)"
  by (intro ext) simp

lemma parser_unfold:
  "parser (Suc (Suc d)) st p input env i =
     map_behaviour
       (seq_behaviour
          [parser_underscore d (fst (skip st [p, Partser_eof])) p,
           parser_underscore d (fst (skip st [p, Partser_eof])) Partser_eof] None)
       (\<lambda>xs env. arg (spread xs) 0) input i env"
  by (simp add: parser_def skip_eq parser_underscore_Suc nth_append del: parser_underscore.simps)

lemma eof_in_skip:
  assumes "Partser_eof < length st" "st ! Partser_eof = BEof"
  shows "parser_underscore (Suc d) (fst (skip st ps)) Partser_eof = eof_behaviour"
  using assms by (simp add: skip_eq parser_underscore_Suc nth_append del: parser_underscore.simps)

lemma raw_in_skip:
  assumes "parser_underscore d st p input i env = Some out"
  shows "parser_underscore d (fst (skip st ps)) p input i env = Some out"
proof -
  have "prefix st (fst (skip st ps))" by (simp add: skip_eq)
  from parser_underscore_mono[OF order_refl this] assms show ?thesis
    by (rule belowD)
qed

lemma parser_eq:
  assumes eof: "Partser_eof < length st" "st ! Partser_eof = BEof"
      and raw: "parser_underscore (Suc d) st p input i env = Some out"
  shows "parser (Suc (Suc (Suc d))) st p input env i =
     (case out of
        Inl e \<Rightarrow> Throw e
      | Inr (Success j v) \<Rightarrow>
          if j < length input then Return (Failure j [''EOF'']) else Return (Success j v)
      | Inr (Failure j es) \<Rightarrow> Return (Failure j es))"
proof -
  note raw' = raw_in_skip[OF raw, of "[p, Partser_eof]"]
  note eof' = eof_in_skip[OF eof, of d "[p, Partser_eof]"]
  show ?thesis
    unfolding parser_unfold
    by (simp add: raw' eof' map_behaviour_def seq_behaviour_def eof_behaviour_def
        mergeOver_def furthest_def makeSuccess_def makeFailure_def applyChainEnv_def arg_def
        del: parser_underscore.simps
        split: sum.splits result.splits)
qed


lemma store_eof: "Partser_eof < length (Partser_store :: 'e store)"
  "(Partser_store :: 'e store) ! Partser_eof = BEof"
  by (simp_all add: Partser_eof_def Partser_store_def)

lemma Partser_string_eq: "Partser_string st s = (st @ [BString s], length st)"
  by (simp add: Partser_string_def Parser_def)

lemma string_behaviour_match:
  "prefix s (drop i input) \<Longrightarrow>
     string_behaviour s input i env = Return (Success (i + length s) (VStr s))"
  by (auto simp: string_behaviour_def slice_def makeSuccess_def prefix_def)

lemma string_behaviour_mismatch:
  "\<not> prefix s (drop i input) \<Longrightarrow>
     string_behaviour s input i env = Return (Failure i [[quote] @ s @ [quote]])"
  by (auto simp: string_behaviour_def slice_def makeFailure_def Let_def prefix_def)
     (metis append_take_drop_id)

lemma string_parser_underscore:
  "parser_underscore (Suc d) (st @ [BString s]) (length st) = string_behaviour s"
  by (simp add: parser_underscore_Suc del: parser_underscore.simps)

lemma string_complete:
  assumes "Partser_eof < length st" "st ! Partser_eof = BEof"
  shows "parser (Suc (Suc (Suc d))) (st @ [BString s]) (length st) input env i =
     (if prefix s (drop i input)
      then if i + length s < length input then Return (Failure (i + length s) [''EOF''])
           else Return (Success (i + length s) (VStr s))
      else Return (Failure i [[quote] @ s @ [quote]]))"
proof (cases "prefix s (drop i input)")
  case True
  have "parser_underscore (Suc d) (st @ [BString s]) (length st) input i env
          = Some (Inr (Success (i + length s) (VStr s)))"
    by (simp only: string_parser_underscore string_behaviour_match[OF True])
  from parser_eq[OF _ _ this] assms True show ?thesis
    by (simp add: nth_append)
next
  case False
  have "parser_underscore (Suc d) (st @ [BString s]) (length st) input i env
          = Some (Inr (Failure i [[quote] @ s @ [quote]]))"
    by (simp only: string_parser_underscore string_behaviour_mismatch[OF False])
  from parser_eq[OF _ _ this] assms False show ?thesis
    by (simp add: nth_append)
qed

text \<open>
  C2. Let the store hold \<^verbatim>\<open>Partser.eof\<close> as the module made it, and let the entry
  \<^verbatim>\<open>p._\<close> end with \<open>out\<close> on an input, a start index and an environment. Then the
  parser called as a function, two calls deeper, ends as follows: it throws what
  \<^verbatim>\<open>p._\<close> threw, returns the failure \<^verbatim>\<open>p._\<close> returned, and where \<^verbatim>\<open>p._\<close>
  succeeded at cursor \<open>j\<close> with value \<open>v\<close> it returns the success at \<open>j\<close> with the
  value \<open>v\<close> alone if \<open>j\<close> is not before the end of the input (the test of
  \<^verbatim>\<open>eof\<close>), and the failure of \<^verbatim>\<open>eof\<close> at \<open>j\<close> otherwise. So it succeeds if and only
  if \<^verbatim>\<open>p._\<close> succeeds with its cursor at the end of the input. In particular
  \<^verbatim>\<open>string("a")\<close> on \<open>ab\<close> succeeds at index 1 through \<^verbatim>\<open>_\<close> and fails as a
  complete parse, expecting \<open>EOF\<close> at index 1.
\<close>

theorem complete_parse_requires_eof:
  "(\<forall>(st :: 'e store) d p input i env out.
      Partser_eof < length st \<longrightarrow> st ! Partser_eof = BEof \<longrightarrow>
      parser_underscore (Suc d) st p input i env = Some out \<longrightarrow>
      parser (Suc (Suc (Suc d))) st p input env i =
        (case out of
           Inl e \<Rightarrow> Throw e
         | Inr (Success j v) \<Rightarrow>
             if j < length input then Return (Failure j [''EOF'']) else Return (Success j v)
         | Inr (Failure j es) \<Rightarrow> Return (Failure j es)) \<and>
      (\<forall>j v. parser (Suc (Suc (Suc d))) st p input env i = Return (Success j v) \<longleftrightarrow>
         out = Inr (Success j v) \<and> length input \<le> j)) \<and>
   (\<forall>d (env :: 'e).
      let (st, a) = Partser_string Partser_store ''a'' in
        parser_underscore (Suc d) st a ''ab'' 0 env = Return (Success 1 (VStr ''a'')) \<and>
        parser (Suc (Suc (Suc d))) st a ''ab'' env 0 = Return (Failure 1 [''EOF'']))"
proof (intro conjI allI impI)
  fix st :: "'e store" and d p input i env out
  assume a: "Partser_eof < length st" "st ! Partser_eof = BEof"
    "parser_underscore (Suc d) st p input i env = Some out"
  show eq: "parser (Suc (Suc (Suc d))) st p input env i =
        (case out of
           Inl e \<Rightarrow> Throw e
         | Inr (Success j v) \<Rightarrow>
             if j < length input then Return (Failure j [''EOF'']) else Return (Success j v)
         | Inr (Failure j es) \<Rightarrow> Return (Failure j es))"
    by (rule parser_eq[OF a])
  fix j v
  show "parser (Suc (Suc (Suc d))) st p input env i = Return (Success j v) \<longleftrightarrow>
         out = Inr (Success j v) \<and> length input \<le> j"
    unfolding eq by (auto split: sum.splits result.splits)
next
  fix d and env :: 'e
  show "let (st, a) = Partser_string Partser_store ''a'' in
        parser_underscore (Suc d) st a ''ab'' 0 env = Return (Success 1 (VStr ''a'')) \<and>
        parser (Suc (Suc (Suc d))) st a ''ab'' env 0 = Return (Failure 1 [''EOF''])"
    by (simp add: Partser_string_eq string_parser_underscore string_behaviour_match
        string_complete store_eof del: parser_underscore.simps)
qed

text \<open>The theorem at \<^verbatim>\<open>Partser.any\<close> on \<open>x\<close> and on \<open>xy\<close>.\<close>

theorem complete_parse_requires_eof_witness:
  "Partser_eof < length (Partser_store :: unit store) \<and>
   (Partser_store :: unit store) ! Partser_eof = BEof \<and>
   parser_underscore 1 Partser_store Partser_any ''x'' 0 () = Some (Inr (Success 1 (VStr ''x''))) \<and>
   parser 3 Partser_store Partser_any ''x'' () 0 = Return (Success 1 (VStr ''x'')) \<and>
   parser_underscore 1 Partser_store Partser_any ''xy'' 0 () = Some (Inr (Success 1 (VStr ''x''))) \<and>
   parser 3 Partser_store Partser_any ''xy'' () 0 = Return (Failure 1 [''EOF''])"
proof -
  have 1: "parser_underscore (Suc 0) Partser_store Partser_any ''x'' 0 ()
             = Some (Inr (Success 1 (VStr ''x'')))"
    by (simp add: Partser_store_def Partser_any_def any_behaviour_def makeSuccess_def charAt_def)
  have 2: "parser_underscore (Suc 0) Partser_store Partser_any ''xy'' 0 ()
             = Some (Inr (Success 1 (VStr ''x'')))"
    by (simp add: Partser_store_def Partser_any_def any_behaviour_def makeSuccess_def charAt_def)
  note gen = complete_parse_requires_eof[THEN conjunct1, rule_format, THEN conjunct1]
  from gen[OF store_eof 1] gen[OF store_eof 2] 1 2 store_eof[where ?'e = unit]
  show ?thesis by (simp add: numeral_3_eq_3)
qed

subsection \<open>Literal strings\<close>

text \<open>
  C5. In a store that holds \<^verbatim>\<open>Partser.eof\<close> as the module made it, the complete parse
  of \<^verbatim>\<open>string(s)\<close> on \<open>s\<close> itself returns the success at index \<open>length s\<close> with
  value \<open>s\<close>; on any input that does not have \<open>s\<close> at the start index \<open>i\<close> it
  returns the failure at \<open>i\<close> whose only description is \<open>s\<close> in single quotes.
\<close>

theorem string_complete_parse:
  assumes "Partser_eof < length st" and "st ! Partser_eof = BEof"
  shows "let (st', p) = Partser_string st s in
           parser (Suc (Suc (Suc d))) st' p s env 0 = Return (Success (length s) (VStr s)) \<and>
           (\<forall>input i. \<not> prefix s (drop i input) \<longrightarrow>
              parser (Suc (Suc (Suc d))) st' p input env i
                = Return (Failure i [[quote] @ s @ [quote]]))"
  using assms by (simp add: Partser_string_eq string_complete)

text \<open>The theorem at \<open>s = ab\<close>, on the inputs \<open>ab\<close> and \<open>ax\<close>.\<close>

theorem string_complete_parse_witness:
  "Partser_eof < length (Partser_store :: unit store) \<and>
   (Partser_store :: unit store) ! Partser_eof = BEof \<and>
   (let (st', p) = Partser_string (Partser_store :: unit store) ''ab'' in
      parser 3 st' p ''ab'' () 0 = Return (Success 2 (VStr ''ab'')) \<and>
      \<not> prefix ''ab'' (drop 0 ''ax'') \<and>
      parser 3 st' p ''ax'' () 0 = Return (Failure 0 [[quote] @ ''ab'' @ [quote]]))"
proof -
  have 1: "Partser_eof < length (Partser_store :: unit store)"
    by (simp add: Partser_eof_def Partser_store_def)
  have 2: "(Partser_store :: unit store) ! Partser_eof = BEof"
    by (simp add: Partser_eof_def Partser_store_def)
  have 3: "\<not> prefix ''ab'' (drop 0 ''ax'')" by simp
  from string_complete_parse[OF 1 2, of "''ab''" 0 "()"] 1 2 3 show ?thesis
    by (simp add: Partser_string_eq numeral_3_eq_3)
qed

text \<open>
  C10. \<^verbatim>\<open>string("")\<close> succeeds at every start index of every input, with the empty
  string as value and the cursor where it was: both the closure and the entry \<^verbatim>\<open>_\<close> of
  the parser \<^verbatim>\<open>Partser.string\<close> makes in any store.
\<close>

theorem empty_string_never_fails:
  "string_behaviour [] input i env = Return (Success i (VStr [])) \<and>
   (let (st', p) = Partser_string st [] in
      parser_underscore (Suc d) st' p input i env = Return (Success i (VStr [])))"
  by (simp add: Partser_string_eq string_parser_underscore string_behaviour_match
      del: parser_underscore.simps)


subsection \<open>Mapping\<close>

lemma map_behaviour_identity: "map_behaviour q (\<lambda>v env. v) = q"
  by (intro ext)
     (auto simp: map_behaviour_def makeSuccess_def split: option.splits sum.splits result.splits)

text \<open>
  C8. Mapping with the identity changes nothing: the closure of
  \<^verbatim>\<open>map(p, identity)\<close> is the entry \<^verbatim>\<open>_\<close> it calls, whether that returns a success,
  returns a failure, throws or does not return. In the store after \<^verbatim>\<open>Partser.map\<close>,
  the entry of the new parser is the entry of \<open>p\<close> one call deeper; and whatever the
  entry of \<open>p\<close> ended with before \<^verbatim>\<open>Partser.map\<close> was called, the new parser ends
  with.
\<close>

theorem map_identity:
  "map_behaviour q (\<lambda>v env. v) = q \<and>
   (let (st', m) = Partser_map st p (\<lambda>v env. v) in
      parser_underscore (Suc d) st' m input i env = parser_underscore d st' p input i env \<and>
      (\<forall>out. parser_underscore d st p input i env = Some out \<longrightarrow>
         parser_underscore (Suc d) st' m input i env = Some out))"
proof -
  note 1 = map_behaviour_identity
  have 2: "parser_underscore (Suc d) (st @ [BMap p (\<lambda>v env. v)]) (length st) input i env
             = parser_underscore d (st @ [BMap p (\<lambda>v env. v)]) p input i env"
    by (simp add: 1)
  have 3: "parser_underscore d (st @ [BMap p (\<lambda>v env. v)]) p input i env = Some out"
    if "parser_underscore d st p input i env = Some out" for out
    using parser_underscore_mono[OF order_refl, of st "st @ [BMap p (\<lambda>v env. v)]" d p] that
    by (auto dest: belowD)
  from 1 2 3 show ?thesis
    by (simp add: Partser_map_def Parser_def del: parser_underscore.simps)
qed

text \<open>The theorem at \<^verbatim>\<open>Partser.any\<close> on \<open>xy\<close>.\<close>

theorem map_identity_witness:
  "parser_underscore 1 (Partser_store :: unit store) Partser_any ''xy'' 0 () = Some (Inr (Success 1 (VStr ''x''))) \<and>
   (let (st', m) = Partser_map (Partser_store :: unit store) Partser_any (\<lambda>v env. v) in
      parser_underscore 2 st' m ''xy'' 0 () = Some (Inr (Success 1 (VStr ''x''))))"
proof -
  have 1: "parser_underscore (Suc 0) (Partser_store :: unit store) Partser_any ''xy'' 0 ()
             = Some (Inr (Success 1 (VStr ''x'')))"
    by (simp add: Partser_store_def Partser_any_def any_behaviour_def makeSuccess_def charAt_def)
  from map_identity[of _ "Partser_store :: unit store" Partser_any "Suc 0" "''xy''" 0 "()",
      THEN conjunct2] 1
  show ?thesis
    by (auto simp: numeral_2_eq_2 Partser_map_def Parser_def simp del: parser_underscore.simps)
qed


subsection \<open>Repetition\<close>

lemma times_optional_reps:
  assumes "reps p ce input i env k vs j env'"
      and "enat (t + k) \<le> mx"
      and "enat (t + k) = mx \<or> (\<exists>fi es. p input j env' = Return (Failure fi es))"
  shows "times_optional p mx ce input succs t i env prev = Return (Success j (VArr (succs @ vs)))"
  using assms
proof (induction arbitrary: succs t prev rule: reps.induct)
  case (reps_0 i env)
  then show ?case
    by (subst times_optional.simps) (auto simp: makeSuccess_def)
next
  case (reps_Suc i env i' v k vs j env')
  from reps_Suc.prems have lt: "enat t < mx"
    by (cases mx) auto
  have "times_optional p mx ce input (succs @ [v]) (Suc t) i' (applyChainEnv ce v env)
          (Some (mergeOver (Success i' v) prev)) = Return (Success j (VArr ((succs @ [v]) @ vs)))"
    using reps_Suc.prems by (intro reps_Suc.IH) simp_all
  with lt reps_Suc.hyps(1) show ?case
    by (subst times_optional.simps) (simp add: Let_def)
qed


lemma times_required_reps_ok:
  assumes "reps p ce input i env k vs j env'"
      and "mn \<le> t + k" and "enat (t + k) \<le> mx"
      and "enat (t + k) = mx \<or> (\<exists>fi es. p input j env' = Return (Failure fi es))"
  shows "times_required p mn mx ce input succs t i env prev = Return (Success j (VArr (succs @ vs)))"
  using assms
proof (induction arbitrary: succs t prev rule: reps.induct)
  case (reps_0 i env)
  then have "\<not> t < mn" by simp
  with times_optional_reps[OF reps.reps_0, where t=t and mx=mx and succs=succs and prev=prev] reps_0
  show ?case by (subst times_required.simps) simp
next
  case (reps_Suc i env i' v k vs j env')
  show ?case
  proof (cases "t < mn")
    case True
    have "times_required p mn mx ce input (succs @ [v]) (Suc t) i' (applyChainEnv ce v env)
          (Some (mergeOver (Success i' v) prev)) = Return (Success j (VArr ((succs @ [v]) @ vs)))"
      using reps_Suc.prems by (intro reps_Suc.IH) simp_all
    with True reps_Suc.hyps(1) show ?thesis
      by (subst times_required.simps) (simp add: Let_def)
  next
    case False
    from times_optional_reps[OF reps.reps_Suc[OF reps_Suc.hyps], where t=t and mx=mx
        and succs=succs and prev=prev]
      reps_Suc.prems False
    show ?thesis by (subst times_required.simps) simp
  qed
qed

lemma times_required_reps_fail:
  assumes "reps p ce input i env k vs j env'"
      and "t + k < mn" and "p input j env' = Return (Failure fi es)" and "no_failure prev"
  shows "times_required p mn mx ce input succs t i env prev = Return (Failure fi es)"
  using assms
proof (induction arbitrary: succs t prev rule: reps.induct)
  case (reps_0 i env)
  then show ?case
    by (subst times_required.simps) (simp add: mergeOver_no_failure)
next
  case (reps_Suc i env i' v k vs j env')
  have "times_required p mn mx ce input (succs @ [v]) (Suc t) i' (applyChainEnv ce v env)
          (Some (mergeOver (Success i' v) prev)) = Return (Failure fi es)"
    using reps_Suc.prems by (intro reps_Suc.IH) (simp_all add: no_failure_def mergeOver_status)
  with reps_Suc.prems reps_Suc.hyps(1) show ?case
    by (subst times_required.simps) (simp add: Let_def)
qed


lemma Partser_times_eq:
  "Partser_times st p mn (Some mx) ce = (st @ [BTimes p mn mx ce], length st)"
  by (simp add: Partser_times_def Parser_def)

lemma timesA_entry:
  "parser_underscore (Suc (Suc d)) (Partser_store @ [BString ''A'', BTimes 5 2 \<infinity> None]) 6
     = times_behaviour (string_behaviour ''A'') 2 \<infinity> None"
  by (simp add: parser_underscore_Suc Partser_store_def del: parser_underscore.simps)


lemma repsA:
  "reps (string_behaviour ''A'') None (replicate (i + k) (CHR ''A'')) i env k
     (replicate k (VStr ''A'')) (i + k) env"
proof (induction k arbitrary: i)
  case 0
  show ?case by (simp add: reps_0)
next
  case (Suc k)
  have "prefix ''A'' (drop i (replicate (i + Suc k) (CHR ''A'')))"
    by (subst replicate_add) simp
  from string_behaviour_match[OF this]
  have 1: "string_behaviour ''A'' (replicate (i + Suc k) (CHR ''A'')) i env
             = Return (Success (Suc i) (VStr ''A''))"
    by simp
  from Suc.IH[of "Suc i"]
  have "reps (string_behaviour ''A'') None (replicate (i + Suc k) (CHR ''A'')) (Suc i)
          (applyChainEnv None (VStr ''A'') env) k (replicate k (VStr ''A'')) (i + Suc k) env"
    by (simp add: applyChainEnv_def)
  from reps_Suc[where p="string_behaviour ''A''", OF 1 this] show ?case by simp
qed

lemma stringA_at_end:
  "string_behaviour ''A'' (replicate n (CHR ''A'')) n env = Return (Failure n [[quote] @ ''A'' @ [quote]])"
  by (simp add: string_behaviour_def slice_def makeFailure_def)

lemma times_behaviour_fail:
  assumes "reps p ce input i env k vs j env'" and "k < mn"
      and "p input j env' = Return (Failure fi es)"
  shows "times_behaviour p mn mx ce input i env = Return (Failure fi es)"
  unfolding times_behaviour_def
  using times_required_reps_fail[OF assms(1) _ assms(3), of 0 mn None] assms(2)
  by (simp add: no_failure_def)

lemma times_behaviour_ok:
  assumes "reps p ce input i env k vs j env'" and "mn \<le> k" and "enat k \<le> mx"
      and "enat k = mx \<or> (\<exists>fi es. p input j env' = Return (Failure fi es))"
  shows "times_behaviour p mn mx ce input i env = Return (Success j (VArr vs))"
  unfolding times_behaviour_def
  using times_required_reps_ok[OF assms(1), of mn 0 mx "[]" None] assms(2-)
  by simp

lemma timesA:
  "times_behaviour (string_behaviour ''A'') 2 \<infinity> None (replicate n (CHR ''A'')) 0 env =
     (if n < 2 then Return (Failure n [[quote] @ ''A'' @ [quote]])
      else Return (Success n (VArr (replicate n (VStr ''A'')))))"
proof (cases "n < 2")
  case True
  from times_behaviour_fail[OF repsA[of 0 n env, simplified] True stringA_at_end] True
  show ?thesis by simp
next
  case False
  then have "2 \<le> n" by simp
  from times_behaviour_ok[OF repsA[of 0 n env, simplified] this, of \<infinity>] False
  show ?thesis by (simp add: stringA_at_end)
qed


lemma timesA_complete:
  "parser (Suc (Suc (Suc (Suc d)))) (Partser_store @ [BString ''A'', BTimes 5 2 \<infinity> None]) 6
     (replicate n (CHR ''A'')) env 0 =
     (if n < 2 then Return (Failure n [[quote] @ ''A'' @ [quote]])
      else Return (Success n (VArr (replicate n (VStr ''A'')))))"
proof -
  let ?st = "Partser_store @ [BString ''A'', BTimes 5 2 \<infinity> None] :: 'a store"
  have eof: "Partser_eof < length ?st" "?st ! Partser_eof = BEof"
    by (simp_all add: Partser_store_def Partser_eof_def)
  have "parser_underscore (Suc (Suc d)) ?st 6 (replicate n (CHR ''A'')) 0 env =
     Some (if n < 2 then Inr (Failure n [[quote] @ ''A'' @ [quote]])
      else Inr (Success n (VArr (replicate n (VStr ''A'')))))"
    by (simp only: timesA_entry timesA if_distrib[of Some])
  from parser_eq[OF eof this] show ?thesis by simp
qed

text \<open>
  C4. Let \<open>k\<close> calls of \<open>p\<close> in a row succeed from the start cursor, with the values
  \<open>vs\<close>, ending at the cursor \<open>j\<close>. If \<open>k\<close> is less than \<open>min'\<close> and the next
  call of \<open>p\<close> returns a failure, \<^verbatim>\<open>times\<close> returns that failure merged over the
  result kept from the attempts before (none, or the last success), which is the failure
  itself. If \<open>k\<close> is at least \<open>min'\<close> and at most
  \<open>max'\<close>, and either \<open>k\<close> is \<open>max'\<close> or the next call of \<open>p\<close> returns a
  failure, \<^verbatim>\<open>times\<close> returns the success at \<open>j\<close> with the array \<open>vs\<close>: the
  failure is not returned. And \<^verbatim>\<open>times(string("A"), 2, Infinity)\<close>, through its entry
  \<^verbatim>\<open>_\<close> and as a complete parse, fails on \<open>A\<close> at index 1 expecting \<open>'A'\<close>,
  succeeds on \<open>AA\<close> at index 2 with two values, and succeeds on \<open>AAAAA\<close> at index 5
  with five. The entry \<^verbatim>\<open>_\<close> of the parser \<^verbatim>\<open>Partser.times\<close> makes is this behaviour
  of the entry of the parser it was given.
\<close>

theorem times_mandatory_then_greedy:
  "(\<forall>(p :: 'e behaviour) chainEnv input i env k vs j env' min' max'.
      reps p chainEnv input i env k vs j env' \<longrightarrow>
        (\<forall>fi es. k < min' \<longrightarrow> p input j env' = Return (Failure fi es) \<longrightarrow>
           times_behaviour p min' max' chainEnv input i env
             = Return (mergeOver (Failure fi es)
                 (if k = 0 then None else Some (Success j (last vs)))) \<and>
           mergeOver (Failure fi es) (if k = 0 then None else Some (Success j (last vs)))
             = Failure fi es) \<and>
        (min' \<le> k \<longrightarrow> enat k \<le> max' \<longrightarrow>
           (enat k = max' \<or> (\<exists>fi es. p input j env' = Return (Failure fi es))) \<longrightarrow>
           times_behaviour p min' max' chainEnv input i env = Return (Success j (VArr vs)))) \<and>
   (\<forall>(st :: 'e store) q min' max' chainEnv d.
      let (st', t) = Partser_times st q min' (Some max') chainEnv
      in parser_underscore (Suc d) st' t
           = times_behaviour (parser_underscore d st' q) min' max' chainEnv) \<and>
   (\<forall>d (env :: 'e).
      let (st1, a) = Partser_string Partser_store ''A'';
          (st2, t) = Partser_times st1 a 2 (Some \<infinity>) None
      in parser_underscore (Suc (Suc d)) st2 t ''A'' 0 env
           = Return (Failure 1 [[quote] @ ''A'' @ [quote]]) \<and>
         parser (Suc (Suc (Suc (Suc d)))) st2 t ''A'' env 0
           = Return (Failure 1 [[quote] @ ''A'' @ [quote]]) \<and>
         parser_underscore (Suc (Suc d)) st2 t ''AA'' 0 env
           = Return (Success 2 (VArr [VStr ''A'', VStr ''A''])) \<and>
         parser (Suc (Suc (Suc (Suc d)))) st2 t ''AA'' env 0
           = Return (Success 2 (VArr [VStr ''A'', VStr ''A''])) \<and>
         parser_underscore (Suc (Suc d)) st2 t ''AAAAA'' 0 env
           = Return (Success 5 (VArr [VStr ''A'', VStr ''A'', VStr ''A'', VStr ''A'', VStr ''A''])) \<and>
         parser (Suc (Suc (Suc (Suc d)))) st2 t ''AAAAA'' env 0
           = Return (Success 5 (VArr [VStr ''A'', VStr ''A'', VStr ''A'', VStr ''A'', VStr ''A''])))"
proof (intro conjI allI impI)
  fix d and env :: 'e
  have st: "length (Partser_store :: 'e store) = 5" by (simp add: Partser_store_def)
  have E: "parser_underscore (Suc (Suc d)) (Partser_store @ [BString ''A'', BTimes 5 2 \<infinity> None]) 6
             (replicate n (CHR ''A'')) 0 env =
           (if n < 2 then Return (Failure n [[quote] @ ''A'' @ [quote]])
            else Return (Success n (VArr (replicate n (VStr ''A'')))))" for n
    by (simp only: timesA_entry timesA)
  note C = timesA_complete[of d _ env]
  have e1: "parser_underscore (Suc (Suc d)) (Partser_store @ [BString ''A'', BTimes 5 2 \<infinity> None]) 6
             ''A'' 0 env = Return (Failure 1 [[quote] @ ''A'' @ [quote]])"
    using E[of 1] by (simp del: parser_underscore.simps)
  have e2: "parser_underscore (Suc (Suc d)) (Partser_store @ [BString ''A'', BTimes 5 2 \<infinity> None]) 6
             ''AA'' 0 env = Return (Success 2 (VArr [VStr ''A'', VStr ''A'']))"
    using E[of 2] by (simp add: numeral_eq_Suc del: parser_underscore.simps)
  have e5: "parser_underscore (Suc (Suc d)) (Partser_store @ [BString ''A'', BTimes 5 2 \<infinity> None]) 6
             ''AAAAA'' 0 env
             = Return (Success 5 (VArr [VStr ''A'', VStr ''A'', VStr ''A'', VStr ''A'', VStr ''A'']))"
    using E[of 5] by (simp add: numeral_eq_Suc del: parser_underscore.simps)
  have c1: "parser (Suc (Suc (Suc (Suc d)))) (Partser_store @ [BString ''A'', BTimes 5 2 \<infinity> None]) 6
             ''A'' env 0 = Return (Failure 1 [[quote] @ ''A'' @ [quote]])"
    using C[of 1] by simp
  have c2: "parser (Suc (Suc (Suc (Suc d)))) (Partser_store @ [BString ''A'', BTimes 5 2 \<infinity> None]) 6
             ''AA'' env 0 = Return (Success 2 (VArr [VStr ''A'', VStr ''A'']))"
    using C[of 2] by (simp add: numeral_eq_Suc)
  have c5: "parser (Suc (Suc (Suc (Suc d)))) (Partser_store @ [BString ''A'', BTimes 5 2 \<infinity> None]) 6
             ''AAAAA'' env 0
             = Return (Success 5 (VArr [VStr ''A'', VStr ''A'', VStr ''A'', VStr ''A'', VStr ''A'']))"
    using C[of 5] by (simp add: numeral_eq_Suc)
  show "let (st1, a) = Partser_string Partser_store ''A'';
          (st2, t) = Partser_times st1 a 2 (Some \<infinity>) None
      in parser_underscore (Suc (Suc d)) st2 t ''A'' 0 env
           = Return (Failure 1 [[quote] @ ''A'' @ [quote]]) \<and>
         parser (Suc (Suc (Suc (Suc d)))) st2 t ''A'' env 0
           = Return (Failure 1 [[quote] @ ''A'' @ [quote]]) \<and>
         parser_underscore (Suc (Suc d)) st2 t ''AA'' 0 env
           = Return (Success 2 (VArr [VStr ''A'', VStr ''A''])) \<and>
         parser (Suc (Suc (Suc (Suc d)))) st2 t ''AA'' env 0
           = Return (Success 2 (VArr [VStr ''A'', VStr ''A''])) \<and>
         parser_underscore (Suc (Suc d)) st2 t ''AAAAA'' 0 env
           = Return (Success 5 (VArr [VStr ''A'', VStr ''A'', VStr ''A'', VStr ''A'', VStr ''A''])) \<and>
         parser (Suc (Suc (Suc (Suc d)))) st2 t ''AAAAA'' env 0
           = Return (Success 5 (VArr [VStr ''A'', VStr ''A'', VStr ''A'', VStr ''A'', VStr ''A'']))"
    unfolding Partser_string_eq Partser_times_eq Let_def prod.case st append_assoc append_Cons
      append_Nil length_append list.size
    using e1 e2 e5 c1 c2 c5 by (simp del: parser_underscore.simps)
next
  fix st :: "'e store" and q min' max' chainEnv d
  show "let (st', t) = Partser_times st q min' (Some max') chainEnv
      in parser_underscore (Suc d) st' t
           = times_behaviour (parser_underscore d st' q) min' max' chainEnv"
    by (simp add: Partser_times_eq parser_underscore_Suc del: parser_underscore.simps)
qed (auto simp: mergeOver_undefined mergeOver_over_success
       intro: times_behaviour_fail times_behaviour_ok)

text \<open>
  The theorem at \<^verbatim>\<open>string("A")\<close> on \<open>AA\<close>, where two calls succeed and the third
  fails: with \<open>min' = 3\<close> the failure is returned, with \<open>min' = 1\<close> and
  \<open>max' = 5\<close> the two values are.
\<close>

theorem times_mandatory_then_greedy_witness:
  "reps (string_behaviour ''A'') None ''AA'' 0 () 2 [VStr ''A'', VStr ''A''] 2 () \<and>
   string_behaviour ''A'' ''AA'' 2 () = Return (Failure 2 [[quote] @ ''A'' @ [quote]]) \<and>
   times_behaviour (string_behaviour ''A'') 3 (enat 5) None ''AA'' 0 ()
     = Return (Failure 2 [[quote] @ ''A'' @ [quote]]) \<and>
   times_behaviour (string_behaviour ''A'') 1 (enat 5) None ''AA'' 0 ()
     = Return (Success 2 (VArr [VStr ''A'', VStr ''A'']))"
proof -
  have r: "reps (string_behaviour ''A'') None ''AA'' 0 () 2 [VStr ''A'', VStr ''A''] 2 ()"
    using repsA[of 0 2 "()"] by (simp add: numeral_eq_Suc)
  have f: "string_behaviour ''A'' ''AA'' 2 () = Return (Failure 2 [[quote] @ ''A'' @ [quote]])"
    using stringA_at_end[of 2 "()"] by (simp add: numeral_eq_Suc)
  note gen = times_mandatory_then_greedy[THEN conjunct1, rule_format, OF r]
  have 1: "times_behaviour (string_behaviour ''A'') 3 (enat 5) None ''AA'' 0 ()
     = Return (Failure 2 [[quote] @ ''A'' @ [quote]])"
    using gen[THEN conjunct1, rule_format, OF _ f, of 3 "enat 5"] by simp
  have 2: "times_behaviour (string_behaviour ''A'') 1 (enat 5) None ''AA'' 0 ()
     = Return (Success 2 (VArr [VStr ''A'', VStr ''A'']))"
    by (rule gen[THEN conjunct2, rule_format]) (simp_all add: f)
  from r f 1 2 show ?thesis by blast
qed


subsection \<open>Clone and replace\<close>

lemma string_entry:
  "p < length st \<Longrightarrow> st ! p = BString s \<Longrightarrow> parser_underscore (Suc d) st p = string_behaviour s"
  by (simp add: parser_underscore_Suc del: parser_underscore.simps)

lemma string_complete_at:
  assumes "Partser_eof < length st" "st ! Partser_eof = BEof" "p < length st" "st ! p = BString s"
  shows "parser (Suc (Suc (Suc d))) st p input env i =
     (if prefix s (drop i input)
      then if i + length s < length input then Return (Failure (i + length s) [''EOF''])
           else Return (Success (i + length s) (VStr s))
      else Return (Failure i [[quote] @ s @ [quote]]))"
proof (cases "prefix s (drop i input)")
  case True
  have "parser_underscore (Suc d) st p input i env = Some (Inr (Success (i + length s) (VStr s)))"
    by (simp only: string_entry[OF assms(3,4)] string_behaviour_match[OF True])
  from parser_eq[OF assms(1,2) this] True show ?thesis by simp
next
  case False
  have "parser_underscore (Suc d) st p input i env = Some (Inr (Failure i [[quote] @ s @ [quote]]))"
    by (simp only: string_entry[OF assms(3,4)] string_behaviour_mismatch[OF False])
  from parser_eq[OF assms(1,2) this] False show ?thesis by simp
qed

lemma Partser_clone_eq: "Partser_clone st p = (st @ [st ! p], length st)"
  by (simp add: Partser_clone_def Partser_custom_def Parser_def)

lemma entry_eq_cell:
  assumes "p < length st" "q < length st" "st ! p = st ! q"
  shows "parser_underscore d st p = parser_underscore d st q"
proof (cases d)
  case 0
  show ?thesis unfolding 0 by (intro ext) simp
next
  case (Suc e)
  from assms show ?thesis unfolding Suc by (simp add: parser_underscore_Suc del: parser_underscore.simps)
qed

text \<open>
  C7. Let \<open>t\<close> and \<open>s\<close> be parsers of the store, \<open>c\<close> the clone of \<open>t\<close>, and
  let \<open>t\<close> then be replaced by \<open>s\<close>. The store has the same parsers at the same
  addresses as before the replacement; \<open>t\<close> now holds the closure of \<open>s\<close>, so a call
  of the entry of \<open>t\<close>, which is what every parser that was given \<open>t\<close> makes, runs
  the closure of \<open>s\<close> and is the call of the entry of \<open>s\<close>; the clone is another
  parser and holds the closure \<open>t\<close> had; every other parser holds what it held. With
  \<open>p = string("a")\<close>, \<open>c = clone(p)\<close> and \<open>replace(p, string("b"))\<close>, the
  complete parse \<open>p("b")\<close> succeeds, \<open>c("a")\<close> succeeds and \<open>c("b")\<close> fails
  expecting \<open>'a'\<close>.
\<close>

theorem replace_rebinds_clone_keeps:
  "(\<forall>(st :: 'e store) t s. t < length st \<longrightarrow> s < length st \<longrightarrow>
      (let (st1, c) = Partser_clone st t;
           st2 = Partser_replace st1 t s
       in length st2 = length st1 \<and> c \<noteq> t \<and> c < length st2 \<and>
          st2 ! t = st ! s \<and> st2 ! c = st ! t \<and>
          (\<forall>q. q < length st \<longrightarrow> q \<noteq> t \<longrightarrow> st2 ! q = st ! q) \<and>
          (\<forall>d. parser_underscore (Suc d) st2 t
                 = apply_behaviour (parser_underscore d st2) (st ! s)) \<and>
          (\<forall>d. parser_underscore d st2 t = parser_underscore d st2 s) \<and>
          (\<forall>d. parser_underscore (Suc d) st2 c
                 = apply_behaviour (parser_underscore d st2) (st ! t)))) \<and>
   (\<forall>d (env :: 'e).
      let (st1, p) = Partser_string Partser_store ''a'';
          (st2, c) = Partser_clone st1 p;
          (st3, b) = Partser_string st2 ''b'';
          st4 = Partser_replace st3 p b
      in parser (Suc (Suc (Suc d))) st4 p ''b'' env 0 = Return (Success 1 (VStr ''b'')) \<and>
         parser (Suc (Suc (Suc d))) st4 c ''a'' env 0 = Return (Success 1 (VStr ''a'')) \<and>
         parser (Suc (Suc (Suc d))) st4 c ''b'' env 0
           = Return (Failure 0 [[quote] @ ''a'' @ [quote]]))"
proof (intro conjI allI impI)
  fix st :: "'e store" and t s
  assume t: "t < length st" and s: "s < length st"
  let ?st2 = "(st @ [st ! t])[t := (st @ [st ! t]) ! s]"
  have cells: "?st2 ! t = st ! s" "?st2 ! length st = st ! t" "?st2 ! s = st ! s"
    using t s by (auto simp: nth_append nth_list_update)
  have len: "length ?st2 = Suc (length st)" by simp
  have e1: "parser_underscore (Suc d) ?st2 t = apply_behaviour (parser_underscore d ?st2) (st ! s)" for d
    using t by (simp add: parser_underscore_Suc cells del: parser_underscore.simps)
  have e2: "parser_underscore d ?st2 t = parser_underscore d ?st2 s" for d
    using t s by (intro entry_eq_cell) (simp_all add: cells)
  have e3: "parser_underscore (Suc d) ?st2 (length st)
              = apply_behaviour (parser_underscore d ?st2) (st ! t)" for d
    by (simp add: parser_underscore_Suc cells del: parser_underscore.simps)
  have others: "?st2 ! q = st ! q" if "q < length st" "q \<noteq> t" for q
    using that by (simp add: nth_append)
  from t s cells len e1 e2 e3 others
  show "let (st1, c) = Partser_clone st t;
           st2 = Partser_replace st1 t s
       in length st2 = length st1 \<and> c \<noteq> t \<and> c < length st2 \<and>
          st2 ! t = st ! s \<and> st2 ! c = st ! t \<and>
          (\<forall>q. q < length st \<longrightarrow> q \<noteq> t \<longrightarrow> st2 ! q = st ! q) \<and>
          (\<forall>d. parser_underscore (Suc d) st2 t
                 = apply_behaviour (parser_underscore d st2) (st ! s)) \<and>
          (\<forall>d. parser_underscore d st2 t = parser_underscore d st2 s) \<and>
          (\<forall>d. parser_underscore (Suc d) st2 c
                 = apply_behaviour (parser_underscore d st2) (st ! t))"
    unfolding Partser_clone_eq Partser_replace_def Let_def prod.case
    by (simp del: parser_underscore.simps)
next
  fix d and env :: 'e
  let ?st4 = "Partser_store @ [BString ''b'', BString ''a'', BString ''b''] :: 'e store"
  have st4: "(let (st1, p) = Partser_string (Partser_store :: 'e store) ''a'';
          (st2, c) = Partser_clone st1 p;
          (st3, b) = Partser_string st2 ''b'';
          st4 = Partser_replace st3 p b
      in (st4, p, c)) = (?st4, 5, 6)"
    by (simp add: Partser_string_eq Partser_clone_eq Partser_replace_def Partser_store_def)
  have eof: "Partser_eof < length ?st4" "?st4 ! Partser_eof = BEof"
    by (simp_all add: Partser_store_def Partser_eof_def)
  have p: "5 < length ?st4" "?st4 ! 5 = BString ''b''"
    by (simp_all add: Partser_store_def)
  have c: "6 < length ?st4" "?st4 ! 6 = BString ''a''"
    by (simp_all add: Partser_store_def)
  note P = string_complete_at[OF eof p, of d _ env 0]
  note C = string_complete_at[OF eof c, of d _ env 0]
  have "parser (Suc (Suc (Suc d))) ?st4 5 ''b'' env 0 = Return (Success 1 (VStr ''b'')) \<and>
         parser (Suc (Suc (Suc d))) ?st4 6 ''a'' env 0 = Return (Success 1 (VStr ''a'')) \<and>
         parser (Suc (Suc (Suc d))) ?st4 6 ''b'' env 0
           = Return (Failure 0 [[quote] @ ''a'' @ [quote]])"
    by (simp add: P C)
  then show "let (st1, p) = Partser_string Partser_store ''a'';
          (st2, c) = Partser_clone st1 p;
          (st3, b) = Partser_string st2 ''b'';
          st4 = Partser_replace st3 p b
      in parser (Suc (Suc (Suc d))) st4 p ''b'' env 0 = Return (Success 1 (VStr ''b'')) \<and>
         parser (Suc (Suc (Suc d))) st4 c ''a'' env 0 = Return (Success 1 (VStr ''a'')) \<and>
         parser (Suc (Suc (Suc d))) st4 c ''b'' env 0
           = Return (Failure 0 [[quote] @ ''a'' @ [quote]])"
    by (simp add: Partser_string_eq Partser_clone_eq Partser_replace_def Partser_store_def
        Let_def eval_nat_numeral)
qed


text \<open>
  The theorem at \<^verbatim>\<open>Partser.any\<close> replaced by \<^verbatim>\<open>Partser.eof\<close>: on \<open>x\<close> the
  entry of \<^verbatim>\<open>Partser.any\<close> now fails expecting \<open>EOF\<close>, and its clone still takes
  the character.
\<close>

theorem replace_rebinds_clone_keeps_witness:
  "Partser_any < length (Partser_store :: unit store) \<and>
   Partser_eof < length (Partser_store :: unit store) \<and>
   (let (st1, c) = Partser_clone (Partser_store :: unit store) Partser_any;
        st2 = Partser_replace st1 Partser_any Partser_eof
    in st2 ! Partser_any = BEof \<and> st2 ! c = BAny \<and> st2 ! Partser_eof = BEof \<and>
       parser_underscore 1 st2 Partser_any ''x'' 0 () = Return (Failure 0 [''EOF'']) \<and>
       parser_underscore 1 st2 c ''x'' 0 () = Return (Success 1 (VStr ''x'')))"
proof -
  have 1: "Partser_any < length (Partser_store :: unit store)"
    and 2: "Partser_eof < length (Partser_store :: unit store)"
    by (simp_all add: Partser_store_def Partser_any_def Partser_eof_def)
  from replace_rebinds_clone_keeps[THEN conjunct1, rule_format, OF 1 2] 1 2
  show ?thesis
    by (simp add: Partser_clone_eq Partser_replace_def Let_def Partser_store_def Partser_any_def
        Partser_eof_def eof_behaviour_def any_behaviour_def makeFailure_def makeSuccess_def
        charAt_def)
qed


subsection \<open>Alternation\<close>

lemma Partser_alt_empty: "Partser_alt st [] = Inl (TypeError ''Partser.alt: Zero alternates'')"
  by (simp add: Partser_alt_def)

lemma Partser_alt_nonempty:
  "parsers \<noteq> [] \<Longrightarrow> Partser_alt st parsers = Inr (st @ [BAlt parsers], length st)"
  by (simp add: Partser_alt_def Parser_def)

text \<open>
  The alternatives are called in order, each on the same input, cursor and environment.
  When the first \<open>k\<close> return failures and the next returns a success, \<^verbatim>\<open>alt\<close>
  returns that success; when all return failures, it returns them merged by
  \<^verbatim>\<open>mergeOver\<close>, each over the merge of those before it.
\<close>

lemma alt_loop_first_success:
  assumes "list_all2 (\<lambda>p r. p input i env = Return r \<and> \<not> status r) ps rs"
      and "q input i env = Return (Success j v)"
  shows "alt_loop (ps @ q # qs) input i env res = Return (Success j v)"
  using assms
  by (induction ps rs arbitrary: res rule: list_all2_induct)
     (simp_all add: mergeOver_success mergeOver_status_iff Let_def)

lemma alt_loop_all_fail:
  assumes "list_all2 (\<lambda>p r. p input i env = Return r \<and> \<not> status r) ps rs"
  shows "alt_loop ps input i env res =
           alt_loop [] input i env (foldl (\<lambda>prev r. Some (mergeOver r prev)) res rs)"
  using assms
  by (induction ps rs arbitrary: res rule: list_all2_induct)
     (simp_all add: mergeOver_status_iff Let_def)

lemma alt_behaviour_first_success:
  assumes "list_all2 (\<lambda>p r. p input i env = Return r \<and> \<not> status r) ps rs"
      and "q input i env = Return (Success j v)"
  shows "alt_behaviour (ps @ q # qs) input i env = Return (Success j v)"
  unfolding alt_behaviour_def using assms by (rule alt_loop_first_success)

lemma alt_behaviour_all_fail:
  assumes "list_all2 (\<lambda>p r. p input i env = Return r \<and> \<not> status r) (p # ps) (r # rs)"
  shows "alt_behaviour (p # ps) input i env =
           Return (the (foldl (\<lambda>prev r. Some (mergeOver r prev)) None (r # rs)))"
proof -
  have "\<exists>x. foldl (\<lambda>prev r. Some (mergeOver r prev)) (Some y) rs = Some x" for y rs
    by (induction rs arbitrary: y) simp_all
  then obtain x where "foldl (\<lambda>prev r. Some (mergeOver r prev)) None (r # rs) = Some x"
    by auto
  with alt_loop_all_fail[OF assms, of None] show ?thesis
    by (simp add: alt_behaviour_def)
qed

text \<open>
  C6. The failure \<^verbatim>\<open>alt\<close> returns is not the furthest one. The alternatives
  \<open>seq([string("a"), string("b")])\<close> and \<open>string("c")\<close> on the input \<open>ax\<close>: the
  first fails at index 1 expecting \<open>'b'\<close>, the second at index 0 expecting \<open>'c'\<close>,
  and \<^verbatim>\<open>alt\<close>, through its entry \<^verbatim>\<open>_\<close> and as a complete parse, returns a failure
  at index 0 expecting \<open>'c'\<close> and \<open>'b'\<close>.
\<close>

theorem alt_reports_nearer_failure:
  "(let (st1, a) = Partser_string (Partser_store :: unit store) ''a'';
        (st2, b) = Partser_string st1 ''b'';
        (st3, s) = Partser_seq st2 [a, b] None;
        (st4, c) = Partser_string st3 ''c''
    in case Partser_alt st4 [s, c] of
         Inl e \<Rightarrow> False
       | Inr (st5, p) \<Rightarrow>
           parser_underscore 2 st5 s ''ax'' 0 () = Return (Failure 1 [[quote] @ ''b'' @ [quote]]) \<and>
           parser_underscore 1 st5 c ''ax'' 0 () = Return (Failure 0 [[quote] @ ''c'' @ [quote]]) \<and>
           parser_underscore 3 st5 p ''ax'' 0 ()
             = Return (Failure 0 [[quote] @ ''c'' @ [quote], [quote] @ ''b'' @ [quote]]) \<and>
           parser 5 st5 p ''ax'' () 0
             = Return (Failure 0 [[quote] @ ''c'' @ [quote], [quote] @ ''b'' @ [quote]]))"
  by code_simp


subsection \<open>The cursor never moves back\<close>

lemma no_retreatI:
  "(\<And>input i env j v. p input i env = Return (Success j v) \<Longrightarrow> min i (length input) \<le> j)
     \<Longrightarrow> no_retreat p"
  by (simp add: no_retreat_def)

lemma no_retreatD:
  "no_retreat p \<Longrightarrow> p input i env = Return (Success j v) \<Longrightarrow> min i (length input) \<le> j"
  unfolding no_retreat_def by blast

lemma forward_no_retreat: "forward p \<Longrightarrow> no_retreat p"
  unfolding forward_def no_retreat_def by (meson min.cobounded1 order_trans)

lemma seq_loop_no_retreat:
  assumes "list_all no_retreat ps"
      and "seq_loop ps ce input i env res acc = Return (Success j v)"
  shows "min i (length input) \<le> j"
  using assms
proof (induction ps arbitrary: i env res acc)
  case Nil
  then show ?case by (auto simp: makeSuccess_def mergeOver_success)
next
  case (Cons p ps)
  from Cons.prems(2) obtain r where r: "p input i env = Return r"
    by (auto split: option.splits sum.splits)
  with Cons.prems(2) have s: "status r"
    by (auto simp: Let_def mergeOver_status_iff split: if_splits dest: mergeOver_Success)
  then obtain i' w where rw: "r = Success i' w" by (cases r) auto
  with r Cons.prems(1) have 1: "min i (length input) \<le> i'"
    by (auto dest: no_retreatD)
  from Cons.prems(2) r rw
  have "seq_loop ps ce input i' (applyChainEnv ce w env) (Some (Success i' w)) (acc @ [w])
          = Return (Success j v)"
    by (simp add: mergeOver_success)
  from Cons.IH[OF _ this] Cons.prems(1) have "min i' (length input) \<le> j" by simp
  with 1 show ?case by simp
qed

lemma alt_loop_no_retreat:
  assumes "list_all no_retreat ps"
      and "alt_loop ps input i env res = Return (Success j v)"
      and "\<And>r. res = Some r \<Longrightarrow> \<not> status r"
  shows "min i (length input) \<le> j"
  using assms
proof (induction ps arbitrary: res)
  case Nil
  then show ?case by (auto split: option.splits)
next
  case (Cons p ps)
  from Cons.prems(2) obtain r where r: "p input i env = Return r"
    by (auto split: option.splits sum.splits)
  show ?case
  proof (cases "status r")
    case True
    with Cons.prems(2) r have "r = Success j v"
      by (simp add: mergeOver_status)
    with r Cons.prems(1) show ?thesis by (auto dest: no_retreatD)
  next
    case False
    with Cons.prems(2) r
    have "alt_loop ps input i env (Some (mergeOver r res)) = Return (Success j v)"
      by (simp add: mergeOver_status_iff Let_def)
    from Cons.IH[OF _ this] Cons.prems(1) False show ?thesis
      by (simp add: mergeOver_status_iff)
  qed
qed

lemma times_optional_no_retreat:
  assumes run: "times_optional p mx ce input succs t ix env prev = Return (Success j v)"
      and p: "no_retreat p" and ix: "min i (length input) \<le> ix"
  shows "min i (length input) \<le> j"
proof -
  have "\<forall>j v. y = Inr (Success j v) \<longrightarrow> no_retreat p \<longrightarrow> min i (length input) \<le> ix \<longrightarrow>
          min i (length input) \<le> j"
    if "times_optional p mx ce input succs t ix env prev = Some y" for y
  proof (rule times_optional.raw_induct
      [where P = "\<lambda>p mx ce inp succs t ix env prev y.
        \<forall>j v. y = Inr (Success j v) \<longrightarrow> no_retreat p \<longrightarrow> min i (length inp) \<le> ix \<longrightarrow>
          min i (length inp) \<le> j",
        OF _ that], goal_cases)
    case (1 rec p mx ce inp succs t ix env prev y)
    show ?case
    proof (intro allI impI)
      fix j v
      assume y: "y = Inr (Success j v)" and p: "no_retreat p" and ix: "min i (length inp) \<le> ix"
      show "min i (length inp) \<le> j"
      proof (cases "enat t < mx")
        case False
        with 1(2) y ix show ?thesis by (simp add: makeSuccess_def)
      next
        case True
        with 1(2) y obtain r where r: "p inp ix env = Return r"
          by (auto split: option.splits sum.splits)
        show ?thesis
        proof (cases r)
          case (Failure fi es)
          with 1(2) True r y ix show ?thesis by (simp add: makeSuccess_def)
        next
          case (Success i' w)
          with r p have "min ix (length inp) \<le> i'" by (auto dest: no_retreatD)
          with ix have i': "min i (length inp) \<le> i'" by simp
          from 1(2) True r Success
          have "rec p mx ce inp (succs @ [w]) (Suc t) i' (applyChainEnv ce w env)
                  (Some (mergeOver (Success i' w) prev)) = Some y"
            by (simp add: Let_def)
          from 1(1)[OF this, rule_format, OF y p i'] show ?thesis .
        qed
      qed
    qed
  qed
  with run p ix show ?thesis by blast
qed

lemma times_required_no_retreat:
  assumes "times_required p mn mx ce input succs t ix env prev = Return (Success j v)"
      and "no_retreat p" and "min i (length input) \<le> ix"
  shows "min i (length input) \<le> j"
  using assms
proof (induction p mn mx ce input succs t ix env prev rule: times_required.induct)
  case (1 p mn mx ce input succs t ix env prev)
  note unf = times_required.simps[of p mn mx ce input succs t ix env prev]
  show ?case
  proof (cases "t < mn")
    case False
    with 1(2) have "times_optional p mx ce input succs t ix env prev = Return (Success j v)"
      by (simp add: unf)
    from times_optional_no_retreat[OF this 1(3,4)] show ?thesis .
  next
    case True
    with 1(2) obtain r where r: "p input ix env = Return r"
      by (auto simp: unf split: option.splits sum.splits)
    show ?thesis
    proof (cases r)
      case (Failure fi es)
      with 1(2) True r show ?thesis
        by (simp add: unf Let_def mergeOver_failure_not_success)
    next
      case (Success i' w)
      with r 1(3) have "min ix (length input) \<le> i'" by (auto dest: no_retreatD)
      with 1(4) Success have i': "min i (length input) \<le> index r" by simp
      from Success have s: "status r" by simp
      from 1(2) True r Success
      have "times_required p mn mx ce input (succs @ [rvalue r]) (Suc t) (index r)
              (applyChainEnv ce (rvalue r) env) (Some (mergeOver r prev)) = Return (Success j v)"
        by (simp add: unf Let_def)
      from 1(1)[OF True r refl refl s this 1(3) i'] show ?thesis .
    qed
  qed
qed


lemma primitives_no_retreat:
  "no_retreat (string_behaviour str)"
  "no_retreat (regex_behaviour re grp)"
  "no_retreat (succeed_behaviour w)"
  "no_retreat (fail_behaviour e)"
  "no_retreat any_behaviour"
  "no_retreat all_behaviour"
  "no_retreat eof_behaviour"
  "no_retreat (test_behaviour predicate)"
  "no_retreat index_behaviour"
  "no_retreat lcIndex_behaviour"
  by (rule no_retreatI;
      auto simp: string_behaviour_def regex_behaviour_def succeed_behaviour_def fail_behaviour_def
        any_behaviour_def all_behaviour_def eof_behaviour_def test_behaviour_def
        index_behaviour_def lcIndex_behaviour_def makeSuccess_def makeFailure_def Let_def
        split: if_splits option.splits prod.splits)+

lemma except_no_retreat:
  "no_retreat a \<Longrightarrow> no_retreat (except_behaviour a f)"
  by (rule no_retreatI)
     (auto simp: except_behaviour_def makeFailure_def dest: no_retreatD
        split: option.splits sum.splits if_splits)

lemma subEnv_no_retreat: "no_retreat p \<Longrightarrow> no_retreat (subEnv_behaviour p d)"
  by (rule no_retreatI) (auto simp: subEnv_behaviour_def dest: no_retreatD)

lemma from_no_retreat:
  "(\<And>q. no_retreat (call q)) \<Longrightarrow> no_retreat (from_behaviour call l)"
  by (rule no_retreatI)
     (auto simp: from_behaviour_def Let_def dest: no_retreatD split: val.splits)

lemma map_no_retreat:
  assumes "no_retreat p"
  shows "no_retreat (map_behaviour p fn)"
proof (rule no_retreatI)
  fix input i env j v
  assume run: "map_behaviour p fn input i env = Return (Success j v)"
  then obtain r where r: "p input i env = Return r"
    by (auto simp: map_behaviour_def split: option.splits sum.splits)
  with run obtain w where "r = Success j w"
    by (cases r) (auto simp: map_behaviour_def makeSuccess_def)
  with r assms show "min i (length input) \<le> j" by (auto dest: no_retreatD)
qed

lemma desc_no_retreat: "no_retreat p \<Longrightarrow> no_retreat (desc_behaviour p e)"
  by (rule no_retreatI)
     (auto simp: desc_behaviour_def dest: no_retreatD split: option.splits sum.splits if_splits)

lemma chain_no_retreat:
  assumes "\<And>q. no_retreat (call q)" and "no_retreat p"
  shows "no_retreat (chain_behaviour call p l)"
proof (rule no_retreatI)
  fix input i env j v
  assume run: "chain_behaviour call p l input i env = Return (Success j v)"
  then obtain r where r: "p input i env = Return r"
    by (auto simp: chain_behaviour_def split: option.splits sum.splits)
  with run have "status r"
    by (auto simp: chain_behaviour_def split: if_splits)
  then obtain i' w where rw: "r = Success i' w" by (cases r) auto
  with r assms(2) have 1: "min i (length input) \<le> i'" by (auto dest: no_retreatD)
  from run r rw obtain q where "call q input i' env = Return (Success j v)"
    by (auto simp: chain_behaviour_def split: val.splits)
  with assms(1) have "min i' (length input) \<le> j" by (auto dest: no_retreatD)
  with 1 show "min i (length input) \<le> j" by simp
qed

lemma seq_no_retreat: "list_all no_retreat ps \<Longrightarrow> no_retreat (seq_behaviour ps ce)"
  unfolding seq_behaviour_def by (rule no_retreatI) (erule seq_loop_no_retreat, assumption)

lemma alt_no_retreat: "list_all no_retreat ps \<Longrightarrow> no_retreat (alt_behaviour ps)"
  unfolding alt_behaviour_def by (rule no_retreatI) (erule alt_loop_no_retreat, assumption, simp)

lemma times_no_retreat: "no_retreat p \<Longrightarrow> no_retreat (times_behaviour p mn mx ce)"
  unfolding times_behaviour_def
  by (rule no_retreatI) (rule times_required_no_retreat, assumption+, simp)

lemma apply_behaviour_no_retreat:
  assumes "\<And>q. no_retreat (call q)" and "\<And>g. b = BCustom g \<Longrightarrow> forward g"
  shows "no_retreat (apply_behaviour call b)"
  using assms
  by (cases b)
     (simp_all add: primitives_no_retreat except_no_retreat subEnv_no_retreat from_no_retreat
        map_no_retreat desc_no_retreat chain_no_retreat seq_no_retreat alt_no_retreat
        times_no_retreat forward_no_retreat list_all_iff)

lemma parser_underscore_no_retreat:
  assumes "customs_forward st"
  shows "no_retreat (parser_underscore d st p)"
proof (induction d arbitrary: p)
  case 0
  show ?case by (rule no_retreatI) simp
next
  case (Suc d)
  show ?case
  proof (cases "p < length st")
    case False
    then show ?thesis by (intro no_retreatI) simp
  next
    case True
    have "no_retreat (apply_behaviour (parser_underscore d st) (st ! p))"
    proof (rule apply_behaviour_no_retreat[OF Suc.IH])
      fix g assume "st ! p = BCustom g"
      with True have "BCustom g \<in> set st" by (metis nth_mem)
      with assms show "forward g" by (simp add: customs_forward_def)
    qed
    with True show ?thesis
      by (simp add: parser_underscore_Suc del: parser_underscore.simps)
  qed
qed

text \<open>
  C9, as stated, fails: \<^verbatim>\<open>Partser.all\<close> started at index 1 of the empty input
  succeeds at index 0, the length of the input.
\<close>

theorem all_moves_back_counterexample:
  "parser_underscore 1 (Partser_store :: unit store) Partser_all [] 1 () = Return (Success 0 (VStr [])) \<and>
   \<not> (1 :: nat) \<le> 0"
  by (simp add: Partser_store_def Partser_all_def all_behaviour_def makeSuccess_def)

text \<open>
  C9, amended. In a store whose custom behaviours never succeed before the cursor they
  started at, every parser whose entry \<^verbatim>\<open>_\<close> is started at a cursor that is not
  beyond the end of the input and returns a success, returns it at a cursor that is not
  before the start. The store may hold any closures the combinators build, of any
  nesting and with any cycles; the user's functions are functions.
\<close>

theorem cursor_never_moves_back:
  assumes "customs_forward st" and "i \<le> length input"
      and "parser_underscore d st p input i env = Return (Success j v)"
  shows "i \<le> j"
  using no_retreatD[OF parser_underscore_no_retreat[OF assms(1)] assms(3)] assms(2)
  by simp

text \<open>The theorem at a custom behaviour that moves one character on.\<close>

theorem cursor_never_moves_back_witness:
  "customs_forward
     (Partser_store @ [BCustom (\<lambda>input i env. Return (Success (i + 1) VNull))] :: unit store) \<and>
   (0 :: nat) \<le> length ''xy'' \<and>
   parser_underscore 1
     (Partser_store @ [BCustom (\<lambda>input i env. Return (Success (i + 1) VNull))] :: unit store)
     5 ''xy'' 0 () = Return (Success 1 VNull) \<and>
   (0 :: nat) \<le> 1"
proof -
  let ?st = "Partser_store @ [BCustom (\<lambda>input i env. Return (Success (i + 1) VNull))] :: unit store"
  have 1: "customs_forward ?st"
    by (auto simp: customs_forward_def forward_def Partser_store_def)
  have 2: "(0 :: nat) \<le> length ''xy''" by simp
  have 3: "parser_underscore 1 ?st 5 ''xy'' 0 () = Return (Success 1 VNull)"
    by (simp add: Partser_store_def)
  from cursor_never_moves_back[OF 1 2 3] 1 2 3 show ?thesis by blast
qed


end
